theory Spec2Isabelle
  imports Complex_Main
begin

section \<open>Heatmap decoding of \<open>oth_simple_pose_resnet.py\<close>\<close>

text \<open>
  The decoder works on MXNet NDArrays and NumPy arrays. An array is modelled by its shape
  and its row-major buffer. Array elements are floating-point numbers in the source; the
  model computes with \<^typ>\<open>real\<close>, so rounding, overflow and NaN are outside the model.
\<close>

subsection \<open>Arrays and errors\<close>

datatype error = IndexError | MXNetError | UnboundLocalError

record ndarray =
  shape :: "nat list"
  data :: "real list"

text \<open>
  An NDArray of the \<open>mx.nd\<close> interface has positive dimensions only, and its buffer
  holds one element per index.
\<close>

definition valid :: "ndarray \<Rightarrow> bool" where
  "valid a \<longleftrightarrow> length (data a) = prod_list (shape a) \<and> (\<forall>d \<in> set (shape a). 0 < d)"

text \<open>Element \<open>a[n][p][c]\<close> of a rank-3 array and \<open>a[n][p][r][c]\<close> of a rank-4 array.\<close>

definition nd_at3 :: "ndarray \<Rightarrow> nat \<Rightarrow> nat \<Rightarrow> nat \<Rightarrow> real" where
  "nd_at3 a n p c = data a ! ((n * (shape a ! 1) + p) * (shape a ! 2) + c)"

definition nd_at4 :: "ndarray \<Rightarrow> nat \<Rightarrow> nat \<Rightarrow> nat \<Rightarrow> nat \<Rightarrow> real" where
  "nd_at4 a n p r c =
     data a ! (((n * (shape a ! 1) + p) * (shape a ! 2) + r) * (shape a ! 3) + c)"

text \<open>
  Row \<open>k\<close> of a buffer seen as rows of \<open>m\<close> elements: what \<open>reshape((N, J, -1))\<close>
  followed by a reduction over axis 2 reads for the pair \<open>k = n * J + p\<close>.
\<close>

definition nd_row :: "nat \<Rightarrow> nat \<Rightarrow> real list \<Rightarrow> real list" where
  "nd_row m k xs = take m (drop (k * m) xs)"

subsection \<open>Library operators\<close>

text \<open>
  Modelled from the spec: \<open>mx.nd.argmax\<close> is an operator of the MXNet library, not of
  this repository. It returns the index of the maximum of a row, the first one when the
  maximum occurs several times. The model is the left-to-right scan that keeps the best
  index seen so far and replaces it only by a strictly larger element.
\<close>

primrec argmax_from :: "nat \<Rightarrow> real \<Rightarrow> nat \<Rightarrow> real list \<Rightarrow> nat" where
  "argmax_from bi bv i [] = bi"
| "argmax_from bi bv i (x # xs) =
     (if bv < x then argmax_from i x (Suc i) xs else argmax_from bi bv (Suc i) xs)"

definition nd_argmax :: "real list \<Rightarrow> nat" where
  "nd_argmax xs = (case xs of [] \<Rightarrow> 0 | x # ys \<Rightarrow> argmax_from 0 x 1 ys)"

text \<open>
  Modelled from the spec: \<open>mx.nd.max\<close> (MXNet library), the maximum of a row. A row of
  a valid array is never empty.
\<close>

definition nd_max :: "real list \<Rightarrow> real" where
  "nd_max xs = (case xs of [] \<Rightarrow> 0 | x # ys \<Rightarrow> fold max ys x)"

text \<open>
  Modelled from the spec: the operator \<open>%\<close> of NDArray (MXNet library) on a
  non-negative dividend and a positive divisor: the remainder of the floored division.
\<close>

definition nd_mod :: "real \<Rightarrow> real \<Rightarrow> real" where
  "nd_mod a b = a - b * of_int \<lfloor>a / b\<rfloor>"

subsection \<open>\<open>get_max_pred\<close>\<close>

text \<open>
  \<open>batch_heatmaps.shape[3]\<close> raises \<open>IndexError\<close> on an array of rank below 4.
  \<open>reshape((batch_size, num_joints, -1))\<close> merges every axis from the third on.
  \<open>preds\<close> has shape \<open>(N, J, 2)\<close> and \<open>maxvals\<close> has shape \<open>(N, J, 1)\<close>.
\<close>

definition get_max_pred :: "ndarray \<Rightarrow> error + (ndarray \<times> ndarray)" where
  "get_max_pred batch_heatmaps =
     (if length (shape batch_heatmaps) < 4 then Inl IndexError
      else
        let batch_size = shape batch_heatmaps ! 0;
            num_joints = shape batch_heatmaps ! 1;
            width = shape batch_heatmaps ! 3;
            m = prod_list (drop 2 (shape batch_heatmaps));
            heatmaps_reshaped =
              map (\<lambda>k. nd_row m k (data batch_heatmaps)) [0..<batch_size * num_joints];
            idx = map nd_argmax heatmaps_reshaped;
            maxvals = map nd_max heatmaps_reshaped;
            preds = map (\<lambda>i. (real i, real i)) idx;
            preds = map (\<lambda>(x, y). (nd_mod x (real width), y)) preds;
            preds = map (\<lambda>(x, y). (x, of_int \<lfloor>y / real width\<rfloor>)) preds;
            pred_mask = map (\<lambda>v. if 0 < v then 1 else 0) maxvals;
            preds = map2 (\<lambda>(x, y) k. (x * k, y * k)) preds pred_mask
        in Inr (\<lparr>shape = [batch_size, num_joints, 2],
                  data = concat (map (\<lambda>(x, y). [x, y]) preds)\<rparr>,
                \<lparr>shape = [batch_size, num_joints, 1], data = maxvals\<rparr>))"

subsection \<open>Affine transforms\<close>

type_synonym vec2 = "real \<times> real"

text \<open>A 2x3 matrix, as its two rows.\<close>

type_synonym mat23 = "(real \<times> real \<times> real) \<times> (real \<times> real \<times> real)"

definition vadd :: "vec2 \<Rightarrow> vec2 \<Rightarrow> vec2" where
  "vadd a b = (fst a + fst b, snd a + snd b)"

definition vsub :: "vec2 \<Rightarrow> vec2 \<Rightarrow> vec2" where
  "vsub a b = (fst a - fst b, snd a - snd b)"

definition vmul :: "vec2 \<Rightarrow> vec2 \<Rightarrow> vec2" where
  "vmul a b = (fst a * fst b, snd a * snd b)"

definition affine_transform :: "vec2 \<Rightarrow> mat23 \<Rightarrow> vec2" where
  "affine_transform pt t =
     (case t of ((a, b, c), (d, e, f)) \<Rightarrow>
        (a * fst pt + b * snd pt + c * 1, d * fst pt + e * snd pt + f * 1))"

definition get_3rd_point :: "vec2 \<Rightarrow> vec2 \<Rightarrow> vec2" where
  "get_3rd_point a b = (let direct = vsub a b in vadd b (- snd direct, fst direct))"

definition get_dir :: "vec2 \<Rightarrow> real \<Rightarrow> vec2" where
  "get_dir src_point rot_rad =
     (let sn = sin rot_rad; cs = cos rot_rad
      in (fst src_point * cs - snd src_point * sn, fst src_point * sn + snd src_point * cs))"

text \<open>
  Modelled from the spec: \<open>cv2.getAffineTransform\<close> is a function of the OpenCV
  library, not of this repository. It solves for the 2x3 matrix that takes three source
  points to three destination points. The model solves each row by Cramer's rule; on a
  singular system (collinear source points) OpenCV's solver leaves the matrix zero.
\<close>

definition solve_row :: "vec2 \<times> vec2 \<times> vec2 \<Rightarrow> real \<times> real \<times> real \<Rightarrow> real \<times> real \<times> real" where
  "solve_row pts u =
     (case pts of ((x0, y0), (x1, y1), (x2, y2)) \<Rightarrow>
      case u of (u0, u1, u2) \<Rightarrow>
        let det = x0 * (y1 - y2) - y0 * (x1 - x2) + (x1 * y2 - x2 * y1)
        in if det = 0 then (0, 0, 0)
           else ((u0 * (y1 - y2) - y0 * (u1 - u2) + (u1 * y2 - u2 * y1)) / det,
                 (x0 * (u1 - u2) - u0 * (x1 - x2) + (x1 * u2 - x2 * u1)) / det,
                 (x0 * (y1 * u2 - y2 * u1) - y0 * (x1 * u2 - x2 * u1) + u0 * (x1 * y2 - x2 * y1)) / det))"

definition getAffineTransform :: "vec2 \<times> vec2 \<times> vec2 \<Rightarrow> vec2 \<times> vec2 \<times> vec2 \<Rightarrow> mat23" where
  "getAffineTransform src dst =
     (case dst of ((u0, v0), (u1, v1), (u2, v2)) \<Rightarrow>
        (solve_row src (u0, u1, u2), solve_row src (v0, v1, v2)))"

text \<open>
  The \<open>scale\<close> argument of \<open>get_affine_transform\<close> is a number, which the function
  broadcasts to both axes, or an array or list of two numbers.
\<close>

datatype scale_arg = ScaleNumber real | ScaleArray vec2

text \<open>
  The reference points \<open>src\<close> and \<open>dst\<close> that \<open>get_affine_transform\<close> builds
  (the rows of its two 3x2 arrays) before it calls the solver.
\<close>

definition affine_points ::
  "vec2 \<Rightarrow> scale_arg \<Rightarrow> real \<Rightarrow> real \<times> real \<Rightarrow> vec2 \<Rightarrow> (vec2 \<times> vec2 \<times> vec2) \<times> (vec2 \<times> vec2 \<times> vec2)" where
  "affine_points center scale rot output_size shift =
     (let scale_tmp = (case scale of ScaleNumber s \<Rightarrow> (s, s) | ScaleArray v \<Rightarrow> v);
          src_w = fst scale_tmp;
          dst_w = fst output_size;
          dst_h = snd output_size;
          rot_rad = pi * rot / 180;
          src_dir = get_dir (0, src_w * - 0.5) rot_rad;
          dst_dir = (0, dst_w * - 0.5);
          src0 = vadd center (vmul scale_tmp shift);
          src1 = vadd (vadd center src_dir) (vmul scale_tmp shift);
          dst0 = (dst_w * 0.5, dst_h * 0.5);
          dst1 = vadd (dst_w * 0.5, dst_h * 0.5) dst_dir;
          src2 = get_3rd_point src0 src1;
          dst2 = get_3rd_point dst0 dst1
      in ((src0, src1, src2), (dst0, dst1, dst2)))"

definition get_affine_transform ::
  "vec2 \<Rightarrow> scale_arg \<Rightarrow> real \<Rightarrow> real \<times> real \<Rightarrow> vec2 \<Rightarrow> bool \<Rightarrow> mat23" where
  "get_affine_transform center scale rot output_size shift inv_flag =
     (case affine_points center scale rot output_size shift of (src, dst) \<Rightarrow>
        if inv_flag then getAffineTransform dst src else getAffineTransform src dst)"

subsection \<open>Loops\<close>

text \<open>A \<open>for\<close> loop over a list of indices whose body may raise.\<close>

primrec for_each :: "nat list \<Rightarrow> (nat \<Rightarrow> 's \<Rightarrow> error + 's) \<Rightarrow> 's \<Rightarrow> error + 's" where
  "for_each [] body s = Inr s"
| "for_each (i # is) body s =
     (case body i s of Inl e \<Rightarrow> Inl e | Inr s' \<Rightarrow> for_each is body s')"

subsection \<open>\<open>transform_preds\<close>\<close>

text \<open>
  \<open>coords\<close> has shape \<open>(J, 2)\<close>. The loop writes row \<open>p\<close> of the zero-initialised
  \<open>target_coords\<close>; the default \<open>shift\<close> of \<open>get_affine_transform\<close> is \<open>(0, 0)\<close>.
\<close>

definition transform_preds :: "ndarray \<Rightarrow> vec2 \<Rightarrow> scale_arg \<Rightarrow> real \<times> real \<Rightarrow> ndarray" where
  "transform_preds coords center scale output_size =
     (let target_coords = replicate (length (data coords)) 0;
          trans = get_affine_transform center scale 0 output_size (0, 0) True
      in \<lparr>shape = shape coords,
          data = fold (\<lambda>p tc.
                   let new_pt = affine_transform (data coords ! (p * 2), data coords ! (p * 2 + 1)) trans
                   in tc[p * 2 := fst new_pt, p * 2 + 1 := snd new_pt])
                 [0..<shape coords ! 0] target_coords\<rparr>)"

subsection \<open>\<open>_get_final_preds\<close>\<close>

text \<open>
  The body of the post-processing loop for the pair \<open>(n, p)\<close>, on the buffer of
  \<open>coords\<close>. \<open>px\<close> and \<open>py\<close> are Python integers. \<open>hm[py][px+1]\<close> is an array of one
  element when the heatmaps have rank 4 (or rank 5 with a last axis of length 1); on any
  other shape the in-place addition to the two elements of \<open>coords[n][p]\<close> does not
  broadcast and MXNet raises.
\<close>

definition refine_body :: "ndarray \<Rightarrow> nat \<Rightarrow> nat \<Rightarrow> real list \<Rightarrow> error + real list" where
  "refine_body batch_heatmaps n p coords =
     (let heatmap_height = shape batch_heatmaps ! 2;
          heatmap_width = shape batch_heatmaps ! 3;
          k = (n * (shape batch_heatmaps ! 1) + p) * 2;
          px = \<lfloor>coords ! k + 0.5\<rfloor>;
          py = \<lfloor>coords ! (k + 1) + 0.5\<rfloor>
      in if 1 < px \<and> px < int heatmap_width - 1 \<and> 1 < py \<and> py < int heatmap_height - 1 then
           if length (shape batch_heatmaps) = 4 \<or>
              (length (shape batch_heatmaps) = 5 \<and> shape batch_heatmaps ! 4 = 1) then
             let hm = (\<lambda>r c. nd_at4 batch_heatmaps n p (nat r) (nat c));
                 diff = (hm py (px + 1) - hm py (px - 1), hm (py + 1) px - hm (py - 1) px)
             in Inr (coords[k := coords ! k + sgn (fst diff) * 0.25,
                            k + 1 := coords ! (k + 1) + sgn (snd diff) * 0.25])
           else Inl MXNetError
         else Inr coords)"

text \<open>
  The post-processing loop of \<open>_get_final_preds\<close>, which updates \<open>coords\<close> in place.
\<close>

definition post_processing :: "ndarray \<Rightarrow> ndarray \<Rightarrow> error + ndarray" where
  "post_processing batch_heatmaps coords =
     (case for_each [0..<shape coords ! 0]
             (\<lambda>n. for_each [0..<shape coords ! 1] (\<lambda>p. refine_body batch_heatmaps n p))
             (data coords) of
        Inl e \<Rightarrow> Inl e
      | Inr coords' \<Rightarrow> Inr \<lparr>shape = shape coords, data = coords'\<rparr>)"

text \<open>
  The loop that transforms back. \<open>center_\<close> and \<open>scale_\<close> are arrays of 2-vectors,
  one row per image; \<open>center_[i]\<close> and \<open>scale_[i]\<close> raise \<open>IndexError\<close> past the
  last row. \<open>coords[i]\<close> is the \<open>(J, 2)\<close> block of image \<open>i\<close>, and
  \<open>preds[i] = ...\<close> overwrites that block of the zero-initialised \<open>preds\<close>.
\<close>

definition transform_back ::
  "ndarray \<Rightarrow> vec2 list \<Rightarrow> vec2 list \<Rightarrow> nat \<Rightarrow> nat \<Rightarrow> error + ndarray" where
  "transform_back coords center scale heatmap_width heatmap_height =
     (let m = prod_list (drop 1 (shape coords)) in
      case for_each [0..<shape coords ! 0]
             (\<lambda>i preds.
                if i < length center \<and> i < length scale then
                  Inr (take (i * m) preds @
                       data (transform_preds
                               \<lparr>shape = drop 1 (shape coords), data = nd_row m i (data coords)\<rparr>
                               (center ! i) (ScaleArray (scale ! i))
                               (real heatmap_width, real heatmap_height)) @
                       drop (Suc i * m) preds)
                else Inl IndexError)
             (replicate (length (data coords)) 0) of
        Inl e \<Rightarrow> Inl e
      | Inr preds \<Rightarrow> Inr \<lparr>shape = shape coords, data = preds\<rparr>)"

definition get_final_preds :: "ndarray \<Rightarrow> vec2 list \<Rightarrow> vec2 list \<Rightarrow> error + (ndarray \<times> ndarray)" where
  "get_final_preds batch_heatmaps center scale =
     (case get_max_pred batch_heatmaps of
        Inl e \<Rightarrow> Inl e
      | Inr (coords, maxvals) \<Rightarrow>
          let heatmap_height = shape batch_heatmaps ! 2;
              heatmap_width = shape batch_heatmaps ! 3
          in case post_processing batch_heatmaps coords of
               Inl e \<Rightarrow> Inl e
             | Inr coords \<Rightarrow>
                 (case transform_back coords center scale heatmap_width heatmap_height of
                    Inl e \<Rightarrow> Inl e
                  | Inr preds \<Rightarrow> Inr (preds, maxvals)))"

subsection \<open>\<open>SimplePoseResNet._get_deconv_cfg\<close>\<close>

text \<open>
  The local variables \<open>padding\<close> and \<open>output_padding\<close> are bound only in the three
  branches; reading an unbound local raises \<open>UnboundLocalError\<close>.
\<close>

definition get_deconv_cfg :: "int \<Rightarrow> error + (int \<times> int \<times> int)" where
  "get_deconv_cfg deconv_kernel =
     (let (padding, output_padding) =
            (if deconv_kernel = 4 then (Some 1, Some 0)
             else if deconv_kernel = 3 then (Some 1, Some 1)
             else if deconv_kernel = 2 then (Some 0, Some 0)
             else (None, None))
      in case padding of
           None \<Rightarrow> Inl UnboundLocalError
         | Some pad \<Rightarrow>
             (case output_padding of
                None \<Rightarrow> Inl UnboundLocalError
              | Some opad \<Rightarrow> Inr (deconv_kernel, pad, opad)))"

subsection \<open>The decoder on a store of buffers\<close>

text \<open>
  The same functions once more, now with the memory that the arrays live in, to say which
  buffers a call writes. The store is the list of all buffers; allocation appends a buffer.
  An array object is a reference to a buffer with an offset and a shape, so that a view
  (\<open>reshape\<close>, \<open>a[i]\<close>) shares the buffer of its base array, while the result of an
  operator (\<open>argmax\<close>, \<open>max\<close>, \<open>tile\<close>, \<open>astype\<close>, \<open>zeros\<close>, \<open>asnumpy\<close>) is a new
  buffer. Unnamed temporaries of expressions are not allocated in the model. Every function
  returns the store it leaves, also when it raises.
\<close>

type_synonym store = "real list list"

record nd_ref =
  buf :: nat
  off :: nat
  rshape :: "nat list"

text \<open>A new array with the given shape and contents.\<close>

definition st_alloc :: "nat list \<Rightarrow> real list \<Rightarrow> store \<Rightarrow> nd_ref \<times> store" where
  "st_alloc sh xs st = (\<lparr>buf = length st, off = 0, rshape = sh\<rparr>, st @ [xs])"

text \<open>The elements of an array, read through its reference.\<close>

definition st_read :: "store \<Rightarrow> nd_ref \<Rightarrow> real list" where
  "st_read st a = take (prod_list (rshape a)) (drop (off a) (st ! buf a))"

text \<open>Assignment of the elements \<open>xs\<close> to an array: it overwrites a part of its buffer.\<close>

definition st_write :: "nd_ref \<Rightarrow> real list \<Rightarrow> store \<Rightarrow> store" where
  "st_write a xs st =
     st[buf a := take (off a) (st ! buf a) @ xs @ drop (off a + length xs) (st ! buf a)]"

text \<open>The array value that a reference denotes in a store.\<close>

definition st_array :: "store \<Rightarrow> nd_ref \<Rightarrow> ndarray" where
  "st_array st a = \<lparr>shape = rshape a, data = st_read st a\<rparr>"

text \<open>The view \<open>a[i]\<close>.\<close>

definition nd_sub :: "nd_ref \<Rightarrow> nat \<Rightarrow> nd_ref" where
  "nd_sub a i =
     \<lparr>buf = buf a, off = off a + i * prod_list (drop 1 (rshape a)), rshape = drop 1 (rshape a)\<rparr>"

text \<open>The rows of an array of shape \<open>(M, 2)\<close>.\<close>

definition st_rows :: "store \<Rightarrow> nd_ref \<Rightarrow> vec2 list" where
  "st_rows st a = map (\<lambda>i. (st_read st a ! (i * 2), st_read st a ! (i * 2 + 1))) [0..<rshape a ! 0]"

text \<open>The strided assignments \<open>a[:, :, 0] = f(a[:, :, 0])\<close> and \<open>a[:, :, 1] = f(a[:, :, 1])\<close>.\<close>

fun map_even :: "(real \<Rightarrow> real) \<Rightarrow> real list \<Rightarrow> real list" where
  "map_even f (x # y # zs) = f x # y # map_even f zs"
| "map_even f zs = zs"

fun map_odd :: "(real \<Rightarrow> real) \<Rightarrow> real list \<Rightarrow> real list" where
  "map_odd f (x # y # zs) = x # f y # map_odd f zs"
| "map_odd f zs = zs"

text \<open>A \<open>for\<close> loop over the store whose body may raise.\<close>

primrec for_each_st ::
  "nat list \<Rightarrow> (nat \<Rightarrow> store \<Rightarrow> store \<times> (error + unit)) \<Rightarrow> store \<Rightarrow> store \<times> (error + unit)" where
  "for_each_st [] body st = (st, Inr ())"
| "for_each_st (i # is) body st =
     (case body i st of
        (st', Inl e) \<Rightarrow> (st', Inl e)
      | (st', Inr _) \<Rightarrow> for_each_st is body st')"

text \<open>
  \<open>get_max_pred\<close>: \<open>heatmaps_reshaped\<close> and the reshaped \<open>maxvals\<close> and \<open>idx\<close> are
  views; \<open>idx\<close>, \<open>maxvals\<close>, \<open>preds\<close> (the copy made by \<open>tile\<close> and \<open>astype\<close>) and
  \<open>pred_mask\<close> are new arrays; the three assignments write into \<open>preds\<close>.
\<close>

definition get_max_pred_st :: "nd_ref \<Rightarrow> store \<Rightarrow> store \<times> (error + nd_ref \<times> nd_ref)" where
  "get_max_pred_st batch_heatmaps st =
     (if length (rshape batch_heatmaps) < 4 then (st, Inl IndexError)
      else
        let batch_size = rshape batch_heatmaps ! 0;
            num_joints = rshape batch_heatmaps ! 1;
            width = rshape batch_heatmaps ! 3;
            m = prod_list (drop 2 (rshape batch_heatmaps));
            heatmaps_reshaped = batch_heatmaps\<lparr>rshape := [batch_size, num_joints, m]\<rparr>;
            rows = map (\<lambda>k. nd_row m k (st_read st heatmaps_reshaped)) [0..<batch_size * num_joints];
            (idx, st) = st_alloc [batch_size, num_joints] (map (\<lambda>g. real (nd_argmax g)) rows) st;
            (maxvals, st) = st_alloc [batch_size, num_joints] (map nd_max rows) st;
            maxvals = maxvals\<lparr>rshape := [batch_size, num_joints, 1]\<rparr>;
            idx = idx\<lparr>rshape := [batch_size, num_joints, 1]\<rparr>;
            (preds, st) = st_alloc [batch_size, num_joints, 2]
                            (concat (map (\<lambda>i. [i, i]) (st_read st idx))) st;
            st = st_write preds (map_even (\<lambda>x. nd_mod x (real width)) (st_read st preds)) st;
            st = st_write preds (map_odd (\<lambda>y. of_int \<lfloor>y / real width\<rfloor>) (st_read st preds)) st;
            (pred_mask, st) = st_alloc [batch_size, num_joints, 2]
                                (concat (map (\<lambda>v. if 0 < v then [1, 1] else [0, 0])
                                   (st_read st maxvals))) st;
            st = st_write preds (map2 (*) (st_read st preds) (st_read st pred_mask)) st
        in (st, Inr (preds, maxvals)))"

text \<open>\<open>transform_preds\<close>: \<open>target_coords\<close> is a new array, and the loop writes its rows.\<close>

definition transform_preds_st ::
  "nd_ref \<Rightarrow> vec2 \<Rightarrow> scale_arg \<Rightarrow> real \<times> real \<Rightarrow> store \<Rightarrow> nd_ref \<times> store" where
  "transform_preds_st coords center scale output_size st =
     (let (target_coords, st) =
            st_alloc (rshape coords) (replicate (prod_list (rshape coords)) 0) st;
          trans = get_affine_transform center scale 0 output_size (0, 0) True
      in (target_coords,
          fold (\<lambda>p st.
                  let pt = (st_read st coords ! (p * 2), st_read st coords ! (p * 2 + 1));
                      new_pt = affine_transform pt trans
                  in st_write \<lparr>buf = buf target_coords, off = off target_coords + p * 2, rshape = [2]\<rparr>
                       [fst new_pt, snd new_pt] st)
            [0..<rshape coords ! 0] st))"

text \<open>
  The body of the post-processing loop: \<open>hm\<close> is a view of the heatmaps and is only read;
  \<open>coords[n][p] += ...\<close> writes two elements of the buffer of \<open>coords\<close>. The model
  writes that buffer back with the two elements changed.
\<close>

definition refine_body_st :: "nd_ref \<Rightarrow> nd_ref \<Rightarrow> nat \<Rightarrow> nat \<Rightarrow> store \<Rightarrow> store \<times> (error + unit)" where
  "refine_body_st batch_heatmaps coords n p st =
     (case refine_body (st_array st batch_heatmaps) n p (st_read st coords) of
        Inl e \<Rightarrow> (st, Inl e)
      | Inr coords' \<Rightarrow> (st_write coords coords' st, Inr ()))"

definition post_processing_st :: "nd_ref \<Rightarrow> nd_ref \<Rightarrow> store \<Rightarrow> store \<times> (error + unit)" where
  "post_processing_st batch_heatmaps coords st =
     for_each_st [0..<rshape coords ! 0]
       (\<lambda>n. for_each_st [0..<rshape coords ! 1] (\<lambda>p. refine_body_st batch_heatmaps coords n p))
       st"

text \<open>The body of the loop that transforms back: \<open>preds[i] = transform_preds(coords[i], ...)\<close>.\<close>

definition transform_image_st ::
  "nd_ref \<Rightarrow> nd_ref \<Rightarrow> nd_ref \<Rightarrow> nd_ref \<Rightarrow> real \<times> real \<Rightarrow> nat \<Rightarrow> store \<Rightarrow> store \<times> (error + unit)" where
  "transform_image_st preds coords center_np scale_np output_size i st =
     (if i < rshape center_np ! 0 \<and> i < rshape scale_np ! 0 then
        let (target_coords, st) =
              transform_preds_st (nd_sub coords i)
                (st_rows st center_np ! i) (ScaleArray (st_rows st scale_np ! i)) output_size st
        in (st_write (nd_sub preds i) (st_read st target_coords) st, Inr ())
      else (st, Inl IndexError))"

text \<open>
  \<open>_get_final_preds\<close>: \<open>center_\<close> and \<open>scale_\<close> (here \<open>center_np\<close>, \<open>scale_np\<close>) are the
  copies made by \<open>asnumpy\<close>, and \<open>preds\<close> is the new array of \<open>zeros_like\<close>.
\<close>

definition get_final_preds_st ::
  "nd_ref \<Rightarrow> nd_ref \<Rightarrow> nd_ref \<Rightarrow> store \<Rightarrow> store \<times> (error + nd_ref \<times> nd_ref)" where
  "get_final_preds_st batch_heatmaps center scale st =
     (let (center_np, st) = st_alloc (rshape center) (st_read st center) st;
          (scale_np, st) = st_alloc (rshape scale) (st_read st scale) st
      in case get_max_pred_st batch_heatmaps st of
           (st, Inl e) \<Rightarrow> (st, Inl e)
         | (st, Inr (coords, maxvals)) \<Rightarrow>
             let heatmap_height = rshape batch_heatmaps ! 2;
                 heatmap_width = rshape batch_heatmaps ! 3
             in case post_processing_st batch_heatmaps coords st of
                  (st, Inl e) \<Rightarrow> (st, Inl e)
                | (st, Inr _) \<Rightarrow>
                    let (preds, st) =
                          st_alloc (rshape coords) (replicate (prod_list (rshape coords)) 0) st
                    in case for_each_st [0..<rshape coords ! 0]
                              (transform_image_st preds coords center_np scale_np
                                 (real heatmap_width, real heatmap_height))
                              st of
                         (st, Inl e) \<Rightarrow> (st, Inl e)
                       | (st, Inr _) \<Rightarrow> (st, Inr (preds, maxvals)))"

text \<open>Every buffer of the store \<open>st0\<close> is still there, with the same contents, in \<open>st\<close>.\<close>

definition unchanged :: "store \<Rightarrow> store \<Rightarrow> bool" where
  "unchanged st0 st \<longleftrightarrow> length st0 \<le> length st \<and> take (length st0) st = st0"

subsection \<open>Auxiliary definitions for the statements\<close>

text \<open>
  What \<open>get_max_pred\<close> computes for one row \<open>g\<close> of the reshaped heatmaps: the two
  masked coordinates.
\<close>

definition peak_of :: "nat \<Rightarrow> real list \<Rightarrow> real \<times> real" where
  "peak_of width g =
     (let i = nd_argmax g; k = (if 0 < nd_max g then 1 else 0)
      in (nd_mod (real i) (real width) * k, of_int \<lfloor>real i / real width\<rfloor> * k))"

text \<open>
  A batch of one image with one joint whose \<open>H\<close> by \<open>W\<close> heatmap is zero except for
  the value \<open>v\<close> at row \<open>r\<close> and column \<open>c\<close>.
\<close>

definition one_hot :: "nat \<Rightarrow> nat \<Rightarrow> nat \<Rightarrow> nat \<Rightarrow> real \<Rightarrow> ndarray" where
  "one_hot H W r c v =
     \<lparr>shape = [1, 1, H, W], data = map (\<lambda>k. if k = r * W + c then v else 0) [0..<H * W]\<rparr>"

text \<open>
  The second source reference point of the affine transform as the specification words it:
  \<open>center + rotate(scale \<times> [0, -0.5], rotation) + scale\<cdot>shift\<close>, with the elementwise
  product of \<open>scale\<close> and \<open>[0, -0.5]\<close>.
\<close>

definition spec_source_point1 :: "vec2 \<Rightarrow> vec2 \<Rightarrow> real \<Rightarrow> vec2 \<Rightarrow> vec2" where
  "spec_source_point1 center scale rotation shift =
     vadd (vadd center (get_dir (vmul scale (0, - 0.5)) (pi * rotation / 180))) (vmul scale shift)"

text \<open>
  The coordinate that the post-processing loop leaves for the pair \<open>(n, p)\<close> when it
  finds the coordinate \<open>c\<close> there.
\<close>

definition refined :: "ndarray \<Rightarrow> nat \<Rightarrow> nat \<Rightarrow> vec2 \<Rightarrow> vec2" where
  "refined bh n p c =
     (let px = \<lfloor>fst c + 0.5\<rfloor>; py = \<lfloor>snd c + 0.5\<rfloor>
      in if 1 < px \<and> px < int (shape bh ! 3) - 1 \<and> 1 < py \<and> py < int (shape bh ! 2) - 1 then
           (fst c + sgn (nd_at4 bh n p (nat py) (nat (px + 1)) - nd_at4 bh n p (nat py) (nat (px - 1))) * 0.25,
            snd c + sgn (nd_at4 bh n p (nat (py + 1)) (nat px) - nd_at4 bh n p (nat (py - 1)) (nat px)) * 0.25)
         else c)"

text \<open>The coordinate pair number \<open>k\<close> of a buffer of shape \<open>(.., 2)\<close>.\<close>

definition pair_at :: "real list \<Rightarrow> nat \<Rightarrow> vec2" where
  "pair_at cs k = (cs ! (k * 2), cs ! (k * 2 + 1))"

text \<open>
  Invariant of the post-processing loop: the first \<open>d\<close> pairs of the buffer \<open>cs\<close> are
  refined, the others are as in the initial buffer \<open>cs0\<close>.
\<close>

definition refined_upto :: "ndarray \<Rightarrow> nat \<Rightarrow> real list \<Rightarrow> nat \<Rightarrow> nat \<Rightarrow> real list \<Rightarrow> bool" where
  "refined_upto bh J cs0 len d cs \<longleftrightarrow>
     length cs = len \<and>
     (\<forall>k. pair_at cs k =
        (if k < d then refined bh (k div J) (k mod J) (pair_at cs0 k) else pair_at cs0 k))"

text \<open>
  Invariant of the loop that transforms back: the blocks of the first \<open>d\<close> images hold
  the transformed pairs of \<open>cs\<close>, the others are still zero.
\<close>

definition transformed_upto ::
  "real list \<Rightarrow> (nat \<Rightarrow> mat23) \<Rightarrow> nat \<Rightarrow> nat \<Rightarrow> nat \<Rightarrow> real list \<Rightarrow> bool" where
  "transformed_upto cs T N J d preds \<longleftrightarrow>
     length preds = N * J * 2 \<and>
     (\<forall>k < N * J. pair_at preds k =
        (if k < d * J then affine_transform (pair_at cs k) (T (k div J)) else (0, 0)))"

text \<open>A batch of one image and one joint with a 5 by 5 heatmap, peak at row 2, column 2.\<close>

definition example_batch :: ndarray where
  "example_batch =
     \<lparr>shape = [1, 1, 5, 5],
      data = [0, 0, 0, 0, 0,
              0, 0, 2, 0, 0,
              0, 0, 5, 1, 0,
              0, 0, 0, 0, 0,
              0, 0, 0, 0, 0]\<rparr>"

text \<open>A store holding the example batch, a center array and a scale array.\<close>

definition example_store :: store where
  "example_store = [data example_batch, [48, 64], [96, 128]]"

text \<open>
  How the post-processing loops correspond: the buffer of \<open>coords\<close> in the store holds
  the list \<open>cs\<close> of the functional loop, and the heatmaps read from the store are \<open>A\<close>.
\<close>

definition coords_in_store :: "ndarray \<Rightarrow> nd_ref \<Rightarrow> nd_ref \<Rightarrow> store \<Rightarrow> real list \<Rightarrow> bool" where
  "coords_in_store A bh P s cs \<longleftrightarrow>
     buf P < length s \<and> s ! buf P = cs \<and> length cs = prod_list (rshape P) \<and> st_array s bh = A"

text \<open>
  How the loops that transform back correspond: the buffer of \<open>preds\<close> holds the list
  \<open>ps\<close>, no buffer has disappeared, and every other buffer of \<open>sq\<close> is as it was.
\<close>

definition preds_in_store :: "store \<Rightarrow> nd_ref \<Rightarrow> nat \<Rightarrow> store \<Rightarrow> real list \<Rightarrow> bool" where
  "preds_in_store sq Q len s ps \<longleftrightarrow>
     length sq \<le> length s \<and> s ! buf Q = ps \<and> length ps = len \<and>
     (\<forall>a < length sq. a \<noteq> buf Q \<longrightarrow> s ! a = sq ! a)"

section \<open>Properties\<close>

subsection \<open>The peak of a heatmap\<close>

lemma argmax_from_props:
  "(argmax_from bi bv i xs = bi \<and> (\<forall>x \<in> set xs. x \<le> bv)) \<or>
   (i \<le> argmax_from bi bv i xs \<and> argmax_from bi bv i xs < i + length xs \<and>
    bv < xs ! (argmax_from bi bv i xs - i) \<and>
    (\<forall>j < argmax_from bi bv i xs - i. xs ! j < xs ! (argmax_from bi bv i xs - i)) \<and>
    (\<forall>x \<in> set xs. x \<le> xs ! (argmax_from bi bv i xs - i)))"
proof (induction xs arbitrary: bi bv i)
  case Nil
  then show ?case by simp
next
  case (Cons x xs)
  show ?case
  proof (cases "bv < x")
    case True
    let ?r = "argmax_from i x (Suc i) xs"
    from Cons.IH [of i x "Suc i"] show ?thesis
    proof
      assume a: "?r = i \<and> (\<forall>y \<in> set xs. y \<le> x)"
      with True show ?thesis by simp
    next
      assume a: "Suc i \<le> ?r \<and> ?r < Suc i + length xs \<and> x < xs ! (?r - Suc i) \<and>
        (\<forall>j < ?r - Suc i. xs ! j < xs ! (?r - Suc i)) \<and> (\<forall>y \<in> set xs. y \<le> xs ! (?r - Suc i))"
      then obtain d where d: "?r - i = Suc d" "?r - Suc i = d"
        by (metis Suc_diff_le diff_Suc_Suc)
      from a d True show ?thesis
        by (auto simp: nth_Cons less_Suc_eq_0_disj split: nat.splits)
    qed
  next
    case False
    let ?r = "argmax_from bi bv (Suc i) xs"
    from Cons.IH [of bi bv "Suc i"] show ?thesis
    proof
      assume a: "?r = bi \<and> (\<forall>y \<in> set xs. y \<le> bv)"
      with False show ?thesis by simp
    next
      assume a: "Suc i \<le> ?r \<and> ?r < Suc i + length xs \<and> bv < xs ! (?r - Suc i) \<and>
        (\<forall>j < ?r - Suc i. xs ! j < xs ! (?r - Suc i)) \<and> (\<forall>y \<in> set xs. y \<le> xs ! (?r - Suc i))"
      then obtain d where d: "?r - i = Suc d" "?r - Suc i = d"
        by (metis Suc_diff_le diff_Suc_Suc)
      from a d False show ?thesis
        by (auto simp: nth_Cons less_Suc_eq_0_disj split: nat.splits)
    qed
  qed
qed

lemma nd_argmax_first_max:
  assumes "xs \<noteq> []"
  shows "nd_argmax xs < length xs \<and> (\<forall>x \<in> set xs. x \<le> xs ! nd_argmax xs) \<and>
         (\<forall>j < nd_argmax xs. xs ! j < xs ! nd_argmax xs)"
proof -
  from assms obtain x ys where xs: "xs = x # ys" by (cases xs) auto
  let ?r = "argmax_from 0 x 1 ys"
  have r: "nd_argmax (x # ys) = ?r" by (simp add: nd_argmax_def)
  from argmax_from_props [of 0 x 1 ys] show ?thesis
  proof
    assume "?r = 0 \<and> (\<forall>y \<in> set ys. y \<le> x)"
    then show ?thesis unfolding xs r by simp
  next
    assume a: "1 \<le> ?r \<and> ?r < 1 + length ys \<and> x < ys ! (?r - 1) \<and>
        (\<forall>j < ?r - 1. ys ! j < ys ! (?r - 1)) \<and> (\<forall>y \<in> set ys. y \<le> ys ! (?r - 1))"
    then obtain d where d: "?r = Suc d" by (cases ?r) auto
    from a show ?thesis unfolding xs r d
      by (auto simp: nth_Cons less_Suc_eq_0_disj split: nat.splits)
  qed
qed

lemma nd_max_Max:
  assumes "xs \<noteq> []" shows "nd_max xs = Max (set xs)"
proof (cases xs)
  case Nil
  with assms show ?thesis by simp
next
  case (Cons x ys)
  have "fold max ys x = Max (set (x # ys))" by (rule Max.set_eq_fold [symmetric])
  then show ?thesis by (simp add: Cons nd_max_def)
qed

lemma nd_argmax_Max: 
  assumes "xs \<noteq> []" shows "xs ! nd_argmax xs = Max (set xs)"
proof -
  from nd_argmax_first_max [OF assms] have a: "nd_argmax xs < length xs" 
    and b: "\<forall>x \<in> set xs. x \<le> xs ! nd_argmax xs" by auto
  from a have "xs ! nd_argmax xs \<in> set xs" by simp
  with b show ?thesis by (intro Max_eqI [symmetric]) auto
qed

lemma nd_mod_of_nat: "0 < w \<Longrightarrow> nd_mod (real i) (real w) = real (i mod w)"
  unfolding nd_mod_def floor_divide_of_nat_eq
  by (metis add_diff_cancel_left' of_int_of_nat_eq of_nat_add of_nat_mult mult_div_mod_eq)

lemma pair_index_less: "n < N \<Longrightarrow> p < J \<Longrightarrow> n * J + p < N * (J::nat)"
proof -
  assume a: "n < N" "p < J"
  then have "n * J + p < Suc n * J" by simp
  also from a have "\<dots> \<le> N * J" by (intro mult_le_mono1) simp
  finally show ?thesis .
qed

lemma concat_pairs_length: "length (concat (map (\<lambda>(x, y). [x, y]) ps)) = 2 * length ps"
  by (induction ps) auto

lemma concat_pairs_nth:
  "k < length ps \<Longrightarrow>
     concat (map (\<lambda>(x, y). [x, y]) ps) ! (k * 2) = fst (ps ! k) \<and>
     concat (map (\<lambda>(x, y). [x, y]) ps) ! (k * 2 + 1) = snd (ps ! k)"
proof (induction ps arbitrary: k)
  case Nil
  then show ?case by simp
next
  case (Cons q ps)
  then show ?case by (cases k; cases q) auto
qed

lemma nd_row_length: "Suc k * m \<le> length xs \<Longrightarrow> length (nd_row m k xs) = m"
  by (simp add: nd_row_def)

lemma nd_row_nth: "i < m \<Longrightarrow> Suc k * m \<le> length xs \<Longrightarrow> nd_row m k xs ! i = xs ! (k * m + i)"
  by (simp add: nd_row_def)

lemma valid_rank4_length:
  "valid bh \<Longrightarrow> shape bh = [N, J, H, W] \<Longrightarrow>
     length (data bh) = N * J * (H * W) \<and> 0 < N \<and> 0 < J \<and> 0 < H \<and> 0 < W"
  by (simp add: valid_def mult.assoc)

lemma row_in_buffer:
  assumes "k < M" shows "Suc k * m \<le> M * (m::nat)"
  using assms by (intro mult_le_mono1) simp

lemma get_max_pred_rank4:
  assumes "shape bh = [N, J, H, W]"
  shows "get_max_pred bh =
     Inr (\<lparr>shape = [N, J, 2],
            data = concat (map (\<lambda>(x, y). [x, y])
                     (map (\<lambda>k. peak_of W (nd_row (H * W) k (data bh))) [0..<N * J]))\<rparr>,
          \<lparr>shape = [N, J, 1], data = map (\<lambda>k. nd_max (nd_row (H * W) k (data bh))) [0..<N * J]\<rparr>)"
  using assms
  by (simp add: get_max_pred_def Let_def zip_map_map zip_same_conv_map peak_of_def comp_def
      case_prod_unfold)

lemma grid_row:
  assumes "valid bh" "shape bh = [N, J, H, W]" "n < N" "p < J"
  shows "map (\<lambda>k. nd_at4 bh n p (k div W) (k mod W)) [0..<H * W] =
         nd_row (H * W) (n * J + p) (data bh)"
proof -
  from valid_rank4_length [OF assms(1,2)] have len: "length (data bh) = N * J * (H * W)" by simp
  have k: "n * J + p < N * J" using assms(3,4) by (rule pair_index_less)
  then have fit: "Suc (n * J + p) * (H * W) \<le> length (data bh)"
    unfolding len by (rule row_in_buffer)
  show ?thesis
  proof (rule nth_equalityI)
    show "length (map (\<lambda>k. nd_at4 bh n p (k div W) (k mod W)) [0..<H * W]) =
          length (nd_row (H * W) (n * J + p) (data bh))"
      using fit by (simp add: nd_row_length)
  next
    fix i assume "i < length (map (\<lambda>k. nd_at4 bh n p (k div W) (k mod W)) [0..<H * W])"
    then have i: "i < H * W" by simp
    have "((n * J + p) * H + i div W) * W + i mod W = (n * J + p) * (H * W) + i"
      by (simp add: algebra_simps)
    with i fit show "map (\<lambda>k. nd_at4 bh n p (k div W) (k mod W)) [0..<H * W] ! i =
          nd_row (H * W) (n * J + p) (data bh) ! i"
      by (simp add: nd_row_nth nd_at4_def assms(2))
  qed
qed

lemma get_max_pred_at:
  assumes "valid bh" "shape bh = [N, J, H, W]" "n < N" "p < J"
  defines "g \<equiv> nd_row (H * W) (n * J + p) (data bh)"
  shows "\<exists>coords maxvals. get_max_pred bh = Inr (coords, maxvals) \<and>
           shape coords = [N, J, 2] \<and> shape maxvals = [N, J, 1] \<and>
           nd_at3 maxvals n p 0 = nd_max g \<and>
           nd_at3 coords n p 0 = fst (peak_of W g) \<and>
           nd_at3 coords n p 1 = snd (peak_of W g)"
proof -
  have k: "n * J + p < N * J" using assms(3,4) by (rule pair_index_less)
  let ?ps = "map (\<lambda>k. peak_of W (nd_row (H * W) k (data bh))) [0..<N * J]"
  have kl: "n * J + p < length ?ps" using k by simp
  from concat_pairs_nth [OF kl] k
  have "concat (map (\<lambda>(x, y). [x, y]) ?ps) ! ((n * J + p) * 2) = fst (peak_of W g)"
    and "concat (map (\<lambda>(x, y). [x, y]) ?ps) ! ((n * J + p) * 2 + 1) = snd (peak_of W g)"
    by (simp_all add: g_def)
  with k show ?thesis
    unfolding get_max_pred_rank4 [OF assms(2)]
    by (simp add: nd_at3_def g_def)
qed

lemma grid_nonempty:
  assumes "valid bh" "shape bh = [N, J, H, W]" "n < N" "p < J"
  shows "length (nd_row (H * W) (n * J + p) (data bh)) = H * W \<and> 0 < H * W"
proof -
  from valid_rank4_length [OF assms(1,2)]
  have len: "length (data bh) = N * J * (H * W)" and pos: "0 < H" "0 < W" by simp_all
  have k: "n * J + p < N * J" using assms(3,4) by (rule pair_index_less)
  then have fit: "Suc (n * J + p) * (H * W) \<le> length (data bh)"
    unfolding len by (rule row_in_buffer)
  with pos show ?thesis by (simp add: nd_row_length)
qed

lemma first_max_of_grid:
  assumes "valid bh" "shape bh = [N, J, H, W]" "n < N" "p < J"
  shows "\<exists>coords maxvals i. get_max_pred bh = Inr (coords, maxvals) \<and> i < H * W \<and>
           (\<forall>j < H * W. nd_at4 bh n p (j div W) (j mod W) \<le> nd_at4 bh n p (i div W) (i mod W)) \<and>
           (\<forall>j < i. nd_at4 bh n p (j div W) (j mod W) < nd_at4 bh n p (i div W) (i mod W)) \<and>
           nd_at3 maxvals n p 0 = nd_at4 bh n p (i div W) (i mod W) \<and>
           (0 < nd_at4 bh n p (i div W) (i mod W) \<longrightarrow>
              nd_at3 coords n p 0 = real (i mod W) \<and> nd_at3 coords n p 1 = real (i div W))"
proof -
  let ?g = "nd_row (H * W) (n * J + p) (data bh)"
  let ?i = "nd_argmax ?g"
  from grid_nonempty [OF assms] have len: "length ?g = H * W" and ne: "?g \<noteq> []" by auto
  from valid_rank4_length [OF assms(1,2)] have W: "0 < W" by simp
  have at: "?g ! j = nd_at4 bh n p (j div W) (j mod W)" if "j < H * W" for j
    using that arg_cong [OF grid_row [OF assms], of "\<lambda>xs. xs ! j"] by simp
  from nd_argmax_first_max [OF ne]
  have i: "?i < H * W" and ub: "\<forall>x \<in> set ?g. x \<le> ?g ! ?i" and first: "\<forall>j < ?i. ?g ! j < ?g ! ?i"
    by (simp_all add: len)
  have ub': "\<forall>j < H * W. nd_at4 bh n p (j div W) (j mod W) \<le> nd_at4 bh n p (?i div W) (?i mod W)"
  proof (intro allI impI)
    fix j assume j: "j < H * W"
    then have "?g ! j \<in> set ?g" by (simp add: len)
    with ub have "?g ! j \<le> ?g ! ?i" by blast
    then show "nd_at4 bh n p (j div W) (j mod W) \<le> nd_at4 bh n p (?i div W) (?i mod W)"
      by (simp add: at j i)
  qed
  have first': "\<forall>j < ?i. nd_at4 bh n p (j div W) (j mod W) < nd_at4 bh n p (?i div W) (?i mod W)"
  proof (intro allI impI)
    fix j assume j: "j < ?i"
    with first have "?g ! j < ?g ! ?i" by blast
    moreover from j i have "j < H * W" by simp
    ultimately show "nd_at4 bh n p (j div W) (j mod W) < nd_at4 bh n p (?i div W) (?i mod W)"
      by (simp add: at i)
  qed
  have mx: "nd_max ?g = nd_at4 bh n p (?i div W) (?i mod W)"
    using nd_max_Max [OF ne] nd_argmax_Max [OF ne] at [OF i] by simp
  from get_max_pred_at [OF assms] obtain coords maxvals where
    r: "get_max_pred bh = Inr (coords, maxvals)" and
    m: "nd_at3 maxvals n p 0 = nd_max ?g" and
    c0: "nd_at3 coords n p 0 = fst (peak_of W ?g)" and
    c1: "nd_at3 coords n p 1 = snd (peak_of W ?g)" by blast
  have pk: "0 < nd_at4 bh n p (?i div W) (?i mod W) \<longrightarrow>
      nd_at3 coords n p 0 = real (?i mod W) \<and> nd_at3 coords n p 1 = real (?i div W)"
    using W c0 c1 by (simp add: peak_of_def Let_def mx nd_mod_of_nat floor_divide_of_nat_eq)
  from r i ub' first' m mx pk show ?thesis by metis
qed

lemma nd_argmax_unique:
  assumes "i < length xs" "\<forall>j < length xs. xs ! j \<le> xs ! i" "\<forall>j < i. xs ! j < xs ! i"
  shows "nd_argmax xs = i"
proof -
  from assms(1) have ne: "xs \<noteq> []" by auto
  let ?a = "nd_argmax xs"
  from nd_argmax_first_max [OF ne]
  have a: "?a < length xs" and ub: "\<forall>x \<in> set xs. x \<le> xs ! ?a" and first: "\<forall>j < ?a. xs ! j < xs ! ?a"
    by auto
  show ?thesis
  proof (rule ccontr)
    assume "?a \<noteq> i"
    then consider "?a < i" | "i < ?a" by linarith
    then show False
    proof cases
      case 1
      with assms(3) have "xs ! ?a < xs ! i" by blast
      moreover from ub assms(1) have "xs ! i \<le> xs ! ?a" by simp
      ultimately show False by simp
    next
      case 2
      with first have "xs ! i < xs ! ?a" by blast
      moreover from assms(2) a have "xs ! ?a \<le> xs ! i" by blast
      ultimately show False by simp
    qed
  qed
qed

lemma one_hot_peak:
  assumes "0 < v" "r < H" "c < W"
  shows "get_max_pred (one_hot H W r c v) =
     Inr (\<lparr>shape = [1, 1, 2], data = [real c, real r]\<rparr>, \<lparr>shape = [1, 1, 1], data = [v]\<rparr>)"
proof -
  let ?xs = "map (\<lambda>k. if k = r * W + c then v else 0) [0..<H * W]"
  have k: "r * W + c < H * W" using assms(2,3) by (rule pair_index_less)
  have am: "nd_argmax ?xs = r * W + c"
    using k assms(1) by (intro nd_argmax_unique) auto
  have ne: "?xs \<noteq> []" using assms(2,3) by auto
  have mx: "nd_max ?xs = v"
    using nd_max_Max [OF ne] nd_argmax_Max [OF ne] k unfolding am by simp
  have W: "0 < W" using assms(3) by simp
  have row: "nd_row (H * W) 0 ?xs = ?xs" by (simp add: nd_row_def)
  have pk: "peak_of W ?xs = (real c, real r)"
    using assms W by (simp add: peak_of_def Let_def am mx nd_mod_of_nat floor_divide_of_nat_eq)
  have sh: "shape (one_hot H W r c v) = [1, 1, H, W]" by (simp add: one_hot_def)
  show ?thesis
    unfolding get_max_pred_rank4 [OF sh]
    by (simp add: one_hot_def row pk mx)
qed

text \<open>
  Claim C1, amended. On a valid batch of shape \<open>(N, J, H, W)\<close> and for every image
  \<open>n\<close> and joint \<open>p\<close>, \<open>get_max_pred\<close> returns as confidence the maximum of the
  heatmap, attained at a flat index \<open>i\<close> before which, in row-major order, every value
  is strictly smaller; when that maximum is positive the returned coordinate is
  \<open>(i mod W, i div W)\<close>. A heatmap of 64 rows and 48 columns whose only non-zero value
  \<open>v > 0\<close> is at row 5 and column 7 gives the coordinate \<open>(7, 5)\<close> and the confidence
  \<open>v\<close>.
\<close>

theorem get_max_pred_peak:
  assumes "valid bh" "shape bh = [N, J, H, W]" "n < N" "p < J" "0 < v"
  shows "(\<exists>coords maxvals i. get_max_pred bh = Inr (coords, maxvals) \<and> i < H * W \<and>
           (\<forall>j < H * W. nd_at4 bh n p (j div W) (j mod W) \<le> nd_at4 bh n p (i div W) (i mod W)) \<and>
           (\<forall>j < i. nd_at4 bh n p (j div W) (j mod W) < nd_at4 bh n p (i div W) (i mod W)) \<and>
           nd_at3 maxvals n p 0 = nd_at4 bh n p (i div W) (i mod W) \<and>
           (0 < nd_at4 bh n p (i div W) (i mod W) \<longrightarrow>
              nd_at3 coords n p 0 = real (i mod W) \<and> nd_at3 coords n p 1 = real (i div W))) \<and>
         get_max_pred (one_hot 64 48 5 7 v) =
           Inr (\<lparr>shape = [1, 1, 2], data = [7, 5]\<rparr>, \<lparr>shape = [1, 1, 1], data = [v]\<rparr>)"
proof
  show "\<exists>coords maxvals i. get_max_pred bh = Inr (coords, maxvals) \<and> i < H * W \<and>
           (\<forall>j < H * W. nd_at4 bh n p (j div W) (j mod W) \<le> nd_at4 bh n p (i div W) (i mod W)) \<and>
           (\<forall>j < i. nd_at4 bh n p (j div W) (j mod W) < nd_at4 bh n p (i div W) (i mod W)) \<and>
           nd_at3 maxvals n p 0 = nd_at4 bh n p (i div W) (i mod W) \<and>
           (0 < nd_at4 bh n p (i div W) (i mod W) \<longrightarrow>
              nd_at3 coords n p 0 = real (i mod W) \<and> nd_at3 coords n p 1 = real (i div W))"
    using assms(1-4) by (rule first_max_of_grid)
next
  have "get_max_pred (one_hot 64 48 5 7 v) =
     Inr (\<lparr>shape = [1, 1, 2], data = [real 7, real 5]\<rparr>, \<lparr>shape = [1, 1, 1], data = [v]\<rparr>)"
    using assms(5) by (intro one_hot_peak) simp_all
  then show "get_max_pred (one_hot 64 48 5 7 v) =
     Inr (\<lparr>shape = [1, 1, 2], data = [7, 5]\<rparr>, \<lparr>shape = [1, 1, 1], data = [v]\<rparr>)"
    by simp
qed

theorem get_max_pred_peak_witness:
  "valid \<lparr>shape = [1, 1, 2, 3], data = [0, 1, 3, 3, 2, 0]\<rparr> \<and> (0::nat) < 1 \<and> (0::real) < 1 \<and>
   get_max_pred \<lparr>shape = [1, 1, 2, 3], data = [0, 1, 3, 3, 2, 0]\<rparr> =
     Inr (\<lparr>shape = [1, 1, 2], data = [2, 0]\<rparr>, \<lparr>shape = [1, 1, 1], data = [3]\<rparr>) \<and>
   (\<exists>coords maxvals i.
      get_max_pred \<lparr>shape = [1, 1, 2, 3], data = [0, 1, 3, 3, 2, 0]\<rparr> = Inr (coords, maxvals) \<and>
      i < 2 * 3 \<and>
      nd_at3 maxvals 0 0 0 =
        nd_at4 \<lparr>shape = [1, 1, 2, 3], data = [0, 1, 3, 3, 2, 0]\<rparr> 0 0 (i div 3) (i mod 3) \<and>
      (0 < nd_at4 \<lparr>shape = [1, 1, 2, 3], data = [0, 1, 3, 3, 2, 0]\<rparr> 0 0 (i div 3) (i mod 3) \<longrightarrow>
         nd_at3 coords 0 0 0 = real (i mod 3) \<and> nd_at3 coords 0 0 1 = real (i div 3))) \<and>
   get_max_pred (one_hot 64 48 5 7 1) =
     Inr (\<lparr>shape = [1, 1, 2], data = [7, 5]\<rparr>, \<lparr>shape = [1, 1, 1], data = [1]\<rparr>)"
proof -
  let ?bh = "\<lparr>shape = [1, 1, 2, 3], data = [0, 1, 3, 3, 2, 0]\<rparr>"
  have v: "valid ?bh" by (simp add: valid_def)
  have sh: "shape ?bh = [1, 1, 2, 3]" by simp
  have run: "get_max_pred ?bh =
     Inr (\<lparr>shape = [1, 1, 2], data = [2, 0]\<rparr>, \<lparr>shape = [1, 1, 1], data = [3]\<rparr>)"
    by (simp add: get_max_pred_def Let_def nd_row_def nd_argmax_def nd_max_def nd_mod_def)
  have n: "(0::nat) < 1" and pos: "(0::real) < 1" by simp_all
  note peak = get_max_pred_peak [OF v sh n n pos]
  from peak have hot: "get_max_pred (one_hot 64 48 5 7 1) =
     Inr (\<lparr>shape = [1, 1, 2], data = [7, 5]\<rparr>, \<lparr>shape = [1, 1, 1], data = [1]\<rparr>)" by (rule conjunct2)
  from peak obtain coords maxvals i where
    "get_max_pred ?bh = Inr (coords, maxvals)" "i < 2 * 3"
    "nd_at3 maxvals 0 0 0 = nd_at4 ?bh 0 0 (i div 3) (i mod 3)"
    "0 < nd_at4 ?bh 0 0 (i div 3) (i mod 3) \<longrightarrow>
       nd_at3 coords 0 0 0 = real (i mod 3) \<and> nd_at3 coords 0 0 1 = real (i div 3)"
    by blast
  then have ex: "\<exists>coords maxvals i.
      get_max_pred ?bh = Inr (coords, maxvals) \<and> i < 2 * 3 \<and>
      nd_at3 maxvals 0 0 0 = nd_at4 ?bh 0 0 (i div 3) (i mod 3) \<and>
      (0 < nd_at4 ?bh 0 0 (i div 3) (i mod 3) \<longrightarrow>
         nd_at3 coords 0 0 0 = real (i mod 3) \<and> nd_at3 coords 0 0 1 = real (i div 3))"
    by blast
  from v n pos run ex hot show ?thesis by (intro conjI)
qed

theorem get_max_pred_peak_counterexample:
  "get_max_pred \<lparr>shape = [1, 1, 1, 2], data = [- 1, 0]\<rparr> =
     Inr (\<lparr>shape = [1, 1, 2], data = [0, 0]\<rparr>, \<lparr>shape = [1, 1, 1], data = [0]\<rparr>) \<and>
   nd_at4 \<lparr>shape = [1, 1, 1, 2], data = [- 1, 0]\<rparr> 0 0 (0 div 2) (0 mod 2) <
   nd_at4 \<lparr>shape = [1, 1, 1, 2], data = [- 1, 0]\<rparr> 0 0 (1 div 2) (1 mod 2) \<and>
   nd_at3 \<lparr>shape = [1, 1, 2], data = [0, 0]\<rparr> 0 0 0 \<noteq> real (1 mod 2)"
  by (simp add: get_max_pred_def Let_def nd_row_def nd_argmax_def nd_max_def nd_mod_def
      nd_at3_def nd_at4_def)

text \<open>
  Claim C2. Where the confidence of a pair is not positive, its coordinate is \<open>(0, 0)\<close>;
  on a batch of zeros every confidence is 0 and every coordinate is \<open>(0, 0)\<close>.
\<close>

theorem get_max_pred_masked:
  assumes "valid bh" "shape bh = [N, J, H, W]" "n < N" "p < J"
  shows "\<exists>coords maxvals. get_max_pred bh = Inr (coords, maxvals) \<and>
           (nd_at3 maxvals n p 0 \<le> 0 \<longrightarrow> nd_at3 coords n p 0 = 0 \<and> nd_at3 coords n p 1 = 0) \<and>
           ((\<forall>x \<in> set (data bh). x = 0) \<longrightarrow>
              nd_at3 maxvals n p 0 = 0 \<and> nd_at3 coords n p 0 = 0 \<and> nd_at3 coords n p 1 = 0)"
proof -
  let ?g = "nd_row (H * W) (n * J + p) (data bh)"
  from get_max_pred_at [OF assms] obtain coords maxvals where
    r: "get_max_pred bh = Inr (coords, maxvals)" and
    m: "nd_at3 maxvals n p 0 = nd_max ?g" and
    c0: "nd_at3 coords n p 0 = fst (peak_of W ?g)" and
    c1: "nd_at3 coords n p 1 = snd (peak_of W ?g)" by blast
  have masked: "nd_at3 coords n p 0 = 0 \<and> nd_at3 coords n p 1 = 0" if "nd_at3 maxvals n p 0 \<le> 0"
    using that c0 c1 by (simp add: m peak_of_def Let_def)
  have zero: "nd_at3 maxvals n p 0 = 0" if z: "\<forall>x \<in> set (data bh). x = 0"
  proof -
    from grid_nonempty [OF assms] have ne: "?g \<noteq> []" by auto
    have "set ?g \<subseteq> set (data bh)"
      unfolding nd_row_def by (meson set_take_subset set_drop_subset subset_trans)
    with z have all0: "\<forall>x \<in> set ?g. x = 0" by blast
    from ne have "Max (set ?g) \<in> set ?g" by (intro Max_in) simp_all
    with all0 have "Max (set ?g) = 0" by blast
    then show ?thesis by (simp add: m nd_max_Max [OF ne])
  qed
  from r masked zero show ?thesis by force
qed

theorem get_max_pred_masked_witness:
  "valid \<lparr>shape = [1, 1, 2, 2], data = [- 2, 0, - 1, 0]\<rparr> \<and> (0::nat) < 1 \<and>
   valid \<lparr>shape = [1, 1, 2, 2], data = [0, 0, 0, 0]\<rparr> \<and>
   set (data \<lparr>shape = [1, 1, 2, 2], data = [0, 0, 0, 0]\<rparr>) = {0} \<and>
   get_max_pred \<lparr>shape = [1, 1, 2, 2], data = [- 2, 0, - 1, 0]\<rparr> =
     Inr (\<lparr>shape = [1, 1, 2], data = [0, 0]\<rparr>, \<lparr>shape = [1, 1, 1], data = [0]\<rparr>) \<and>
   get_max_pred \<lparr>shape = [1, 1, 2, 2], data = [0, 0, 0, 0]\<rparr> =
     Inr (\<lparr>shape = [1, 1, 2], data = [0, 0]\<rparr>, \<lparr>shape = [1, 1, 1], data = [0]\<rparr>)"
proof -
  let ?a = "\<lparr>shape = [1, 1, 2, 2], data = [- 2, 0, - 1, 0]\<rparr>"
  let ?z = "\<lparr>shape = [1, 1, 2, 2], data = [0, 0, 0, 0]\<rparr>"
  have va: "valid ?a" and vz: "valid ?z" by (simp_all add: valid_def)
  have sa: "shape ?a = [1, 1, 2, 2]" and sz: "shape ?z = [1, 1, 2, 2]" by simp_all
  from get_max_pred_masked [OF va sa, of 0 0] get_max_pred_masked [OF vz sz, of 0 0]
  show ?thesis
    by (simp add: valid_def get_max_pred_def Let_def nd_row_def nd_argmax_def nd_max_def nd_mod_def)
qed

subsection \<open>The deconvolution configuration\<close>

text \<open>
  Claim C10. \<open>_get_deconv_cfg\<close> returns a configuration for the kernel sizes 4, 3 and 2,
  and for every other kernel size its return statement reads unbound locals, so it raises
  instead of returning.
\<close>

theorem deconv_cfg:
  "get_deconv_cfg 4 = Inr (4, 1, 0) \<and> get_deconv_cfg 3 = Inr (3, 1, 1) \<and>
   get_deconv_cfg 2 = Inr (2, 0, 0) \<and>
   (\<forall>k. k \<notin> {2, 3, 4} \<longrightarrow> get_deconv_cfg k = Inl UnboundLocalError)"
  by (simp add: get_deconv_cfg_def)

theorem deconv_cfg_witness:
  "(5::int) \<notin> {2, 3, 4} \<and> get_deconv_cfg 5 = Inl UnboundLocalError \<and>
   get_deconv_cfg 4 = Inr (4, 1, 0)"
  using deconv_cfg by simp

subsection \<open>The affine transform\<close>

text \<open>
  Claim C4, amended. The second source reference point is
  \<open>center + rotate([0, -0.5 \<cdot> scale[0]], rotation) + scale\<cdot>shift\<close>: it depends on the
  first component of \<open>scale\<close>, and agrees with the specification's elementwise product
  when both components of \<open>scale\<close> are equal.
\<close>

theorem source_point1:
  "fst (snd (fst (affine_points center (ScaleArray scale) rot output_size shift))) =
     vadd (vadd center (get_dir (0, - 0.5 * fst scale) (pi * rot / 180))) (vmul scale shift) \<and>
   (fst scale = snd scale \<longrightarrow>
      fst (snd (fst (affine_points center (ScaleArray scale) rot output_size shift))) =
        spec_source_point1 center scale rot shift)"
  by (simp add: affine_points_def Let_def spec_source_point1_def vmul_def)

theorem source_point1_witness:
  "fst (3::real, 3::real) = snd (3::real, 3::real) \<and>
   fst (snd (fst (affine_points (10, 20) (ScaleArray (3, 3)) 0 (48, 64) (0, 0)))) =
     spec_source_point1 (10, 20) (3, 3) 0 (0, 0) \<and>
   spec_source_point1 (10, 20) (3, 3) 0 (0, 0) = (10, 37 / 2)"
  using source_point1 [of "(10, 20)" "(3, 3)" 0 "(48, 64)" "(0, 0)"]
  by (simp add: spec_source_point1_def vadd_def vmul_def get_dir_def)

theorem source_point1_counterexample:
  "fst (snd (fst (affine_points (0, 0) (ScaleArray (2, 4)) 0 (48, 64) (0, 0)))) = (0, - 1) \<and>
   spec_source_point1 (0, 0) (2, 4) 0 (0, 0) = (0, - 2)"
  by (simp add: affine_points_def Let_def spec_source_point1_def vadd_def vmul_def get_dir_def)

text \<open>The two transforms of the round trip, in closed form.\<close>

lemma forward_48_64:
  "get_affine_transform (48, 64) (ScaleArray (96, 128)) 0 (48, 64) (0, 0) False =
     ((1 / 2, 0, 0), (0, 1 / 2, 0))"
  by (simp add: get_affine_transform_def affine_points_def Let_def vadd_def vsub_def vmul_def
      get_dir_def get_3rd_point_def getAffineTransform_def solve_row_def)

lemma inverse_48_64:
  "get_affine_transform (48, 64) (ScaleArray (96, 128)) 0 (48, 64) (0, 0) True =
     ((2, 0, 0), (0, 2, 0))"
  by (simp add: get_affine_transform_def affine_points_def Let_def vadd_def vsub_def vmul_def
      get_dir_def get_3rd_point_def getAffineTransform_def solve_row_def)

text \<open>
  Claim C6. For center (48, 64), scale (96, 128), rotation 0 and output size (48, 64), the
  forward transform followed by the inverse transform takes every point back to itself
  (exactly, in real arithmetic), so within the tolerance 1e-3 in each coordinate.
\<close>

theorem affine_round_trip:
  "affine_transform
     (affine_transform pt (get_affine_transform (48, 64) (ScaleArray (96, 128)) 0 (48, 64) (0, 0) False))
     (get_affine_transform (48, 64) (ScaleArray (96, 128)) 0 (48, 64) (0, 0) True) = pt \<and>
   \<bar>fst (affine_transform
     (affine_transform pt (get_affine_transform (48, 64) (ScaleArray (96, 128)) 0 (48, 64) (0, 0) False))
     (get_affine_transform (48, 64) (ScaleArray (96, 128)) 0 (48, 64) (0, 0) True)) - fst pt\<bar> \<le> 1 / 1000 \<and>
   \<bar>snd (affine_transform
     (affine_transform pt (get_affine_transform (48, 64) (ScaleArray (96, 128)) 0 (48, 64) (0, 0) False))
     (get_affine_transform (48, 64) (ScaleArray (96, 128)) 0 (48, 64) (0, 0) True)) - snd pt\<bar> \<le> 1 / 1000"
  unfolding forward_48_64 inverse_48_64 by (simp add: affine_transform_def)

text \<open>
  The model of the solver does solve the system: on non-collinear source points the
  returned row takes each source point to its destination value.
\<close>

lemma over_common_denominator:
  "na / d * x + nb / d * y + nc / d = (na * x + nb * y + nc) / (d::real)"
  by (simp add: add_divide_distrib)

lemma solve_row_solves:
  assumes "x0 * (y1 - y2) - y0 * (x1 - x2) + (x1 * y2 - x2 * y1) \<noteq> 0"
    and "solve_row ((x0, y0), (x1, y1), (x2, y2)) (u0, u1, u2) = (a, b, c)"
  shows "a * x0 + b * y0 + c = u0 \<and> a * x1 + b * y1 + c = u1 \<and> a * x2 + b * y2 + c = u2"
proof -
  let ?d = "x0 * (y1 - y2) - y0 * (x1 - x2) + (x1 * y2 - x2 * y1)"
  from assms have a: "a = (u0 * (y1 - y2) - y0 * (u1 - u2) + (u1 * y2 - u2 * y1)) / ?d"
    and b: "b = (x0 * (u1 - u2) - u0 * (x1 - x2) + (x1 * u2 - x2 * u1)) / ?d"
    and c: "c = (x0 * (y1 * u2 - y2 * u1) - y0 * (x1 * u2 - x2 * u1) + u0 * (x1 * y2 - x2 * y1)) / ?d"
    by (simp_all add: solve_row_def Let_def)
  let ?na = "u0 * (y1 - y2) - y0 * (u1 - u2) + (u1 * y2 - u2 * y1)"
  let ?nb = "x0 * (u1 - u2) - u0 * (x1 - x2) + (x1 * u2 - x2 * u1)"
  let ?nc = "x0 * (y1 * u2 - y2 * u1) - y0 * (x1 * u2 - x2 * u1) + u0 * (x1 * y2 - x2 * y1)"
  have lin: "a * x + b * y + c = (?na * x + ?nb * y + ?nc) / ?d" for x y
    unfolding a b c by (rule over_common_denominator)
  have n0: "?na * x0 + ?nb * y0 + ?nc = u0 * ?d" by (simp add: algebra_simps)
  have n1: "?na * x1 + ?nb * y1 + ?nc = u1 * ?d" by (simp add: algebra_simps)
  have n2: "?na * x2 + ?nb * y2 + ?nc = u2 * ?d" by (simp add: algebra_simps)
  show ?thesis unfolding lin n0 n1 n2 using assms(1) by simp
qed

subsection \<open>The loops of \<open>_get_final_preds\<close>\<close>

lemma for_each_cong:
  "(\<And>i s. i \<in> set is \<Longrightarrow> f i s = g i s) \<Longrightarrow> for_each is f s = for_each is g s"
  by (induction "is" arbitrary: s) (auto split: sum.splits)

lemma for_each_upt_invariant:
  assumes "Inv a s" "a \<le> b"
    and step: "\<And>i t. a \<le> i \<Longrightarrow> i < b \<Longrightarrow> Inv i t \<Longrightarrow> \<exists>t'. body i t = Inr t' \<and> Inv (Suc i) t'"
  shows "\<exists>s'. for_each [a..<b] body s = Inr s' \<and> Inv b s'"
  using assms(1,2) step
proof (induction "b - a" arbitrary: a s)
  case 0
  then show ?case by simp
next
  case (Suc d)
  then have lt: "a < b" by simp
  from Suc.prems(3) [of a s] lt Suc.prems(1)
  obtain t where t: "body a s = Inr t" "Inv (Suc a) t" by auto
  have d: "d = b - Suc a" using Suc.hyps(2) by simp
  have "\<exists>s'. for_each [Suc a..<b] body t = Inr s' \<and> Inv b s'"
  proof (rule Suc.hyps(1) [OF d t(2)])
    show "Suc a \<le> b" using lt by simp
  next
    fix i u assume "Suc a \<le> i" "i < b" "Inv i u"
    then show "\<exists>t'. body i u = Inr t' \<and> Inv (Suc i) t'"
      using Suc.prems(3) [of i u] by simp
  qed
  then show ?case using lt t(1) by (simp add: upt_conv_Cons)
qed

text \<open>On heatmaps of rank 4 the body of the post-processing loop never raises.\<close>

lemma refine_body_rank4:
  assumes "shape bh = [N, J, H, W]"
  shows "refine_body bh n p cs =
     Inr (cs[(n * J + p) * 2 := fst (refined bh n p (cs ! ((n * J + p) * 2), cs ! ((n * J + p) * 2 + 1))),
             (n * J + p) * 2 + 1 := snd (refined bh n p (cs ! ((n * J + p) * 2), cs ! ((n * J + p) * 2 + 1)))])"
  using assms by (simp add: refine_body_def refined_def Let_def)

lemma pair_at_update:
  assumes "k * 2 + 1 < length cs"
  shows "pair_at (cs[k * 2 := a, k * 2 + 1 := b]) j = (if j = k then (a, b) else pair_at cs j)"
proof -
  have "j * 2 \<noteq> k * 2 + 1" "j * 2 + 1 \<noteq> k * 2" by presburger+
  with assms show ?thesis by (auto simp: pair_at_def nth_list_update)
qed

lemma refine_step:
  assumes sh: "shape bh = [N, J, H, W]" and n: "n < N" and p: "p < J"
    and inv: "refined_upto bh J cs0 (N * J * 2) (n * J + p) t"
  shows "\<exists>t'. refine_body bh n p t = Inr t' \<and> refined_upto bh J cs0 (N * J * 2) (Suc (n * J + p)) t'"
proof -
  let ?k = "n * J + p"
  have k: "?k < N * J" using n p by (rule pair_index_less)
  from inv have len: "length t = N * J * 2"
    and pairs: "\<And>j. pair_at t j =
        (if j < ?k then refined bh (j div J) (j mod J) (pair_at cs0 j) else pair_at cs0 j)"
    by (simp_all add: refined_upto_def)
  have fit: "?k * 2 + 1 < length t" using k len by simp
  have here: "pair_at t ?k = pair_at cs0 ?k" using pairs [of ?k] by simp
  have dm: "?k div J = n" "?k mod J = p" using p by simp_all
  let ?c = "refined bh n p (t ! (?k * 2), t ! (?k * 2 + 1))"
  let ?t' = "t[?k * 2 := fst ?c, ?k * 2 + 1 := snd ?c]"
  have body: "refine_body bh n p t = Inr ?t'" by (rule refine_body_rank4 [OF sh])
  have c: "?c = refined bh n p (pair_at cs0 ?k)" using here by (simp add: pair_at_def)
  have "pair_at ?t' j =
      (if j < Suc ?k then refined bh (j div J) (j mod J) (pair_at cs0 j) else pair_at cs0 j)" for j
  proof (cases "j = ?k")
    case True
    then show ?thesis using pair_at_update [OF fit, of "fst ?c" "snd ?c" j] c dm by simp
  next
    case False
    then show ?thesis using pair_at_update [OF fit, of "fst ?c" "snd ?c" j] pairs [of j] by auto
  qed
  then have "refined_upto bh J cs0 (N * J * 2) (Suc ?k) ?t'"
    using len by (simp add: refined_upto_def)
  with body show ?thesis by blast
qed

lemma refine_inner_loop:
  assumes sh: "shape bh = [N, J, H, W]" and n: "n < N"
    and inv: "refined_upto bh J cs0 (N * J * 2) (n * J) t"
  shows "\<exists>t'. for_each [0..<J] (\<lambda>p. refine_body bh n p) t = Inr t' \<and>
              refined_upto bh J cs0 (N * J * 2) (Suc n * J) t'"
proof -
  have "\<exists>t'. for_each [0..<J] (\<lambda>p. refine_body bh n p) t = Inr t' \<and>
              refined_upto bh J cs0 (N * J * 2) (n * J + J) t'"
  proof (rule for_each_upt_invariant [where Inv = "\<lambda>p. refined_upto bh J cs0 (N * J * 2) (n * J + p)"])
    show "refined_upto bh J cs0 (N * J * 2) (n * J + 0) t" using inv by simp
  next
    show "0 \<le> J" by simp
  next
    fix i u assume "i < J" "refined_upto bh J cs0 (N * J * 2) (n * J + i) u"
    then show "\<exists>t'. refine_body bh n i u = Inr t' \<and> refined_upto bh J cs0 (N * J * 2) (n * J + Suc i) t'"
      using refine_step [OF sh n, of i cs0 u] by simp
  qed
  then show ?thesis by (simp add: add.commute)
qed

lemma refine_outer_loop:
  assumes sh: "shape bh = [N, J, H, W]" and len: "length cs0 = N * J * 2"
  shows "\<exists>t'. for_each [0..<N] (\<lambda>n. for_each [0..<J] (\<lambda>p. refine_body bh n p)) cs0 = Inr t' \<and>
              refined_upto bh J cs0 (N * J * 2) (N * J) t'"
proof (rule for_each_upt_invariant [where Inv = "\<lambda>n. refined_upto bh J cs0 (N * J * 2) (n * J)"])
  show "refined_upto bh J cs0 (N * J * 2) (0 * J) cs0" using len by (simp add: refined_upto_def)
next
  show "0 \<le> N" by simp
next
  fix i u assume "i < N" "refined_upto bh J cs0 (N * J * 2) (i * J) u"
  then show "\<exists>t'. for_each [0..<J] (\<lambda>p. refine_body bh i p) u = Inr t' \<and>
                  refined_upto bh J cs0 (N * J * 2) (Suc i * J) t'"
    by (rule refine_inner_loop [OF sh])
qed

lemma post_processing_pairs:
  assumes sh: "shape bh = [N, J, H, W]" and shc: "shape coords = [N, J, 2]"
    and len: "length (data coords) = N * J * 2"
  shows "\<exists>cs'. post_processing bh coords = Inr \<lparr>shape = [N, J, 2], data = cs'\<rparr> \<and>
           length cs' = N * J * 2 \<and>
           (\<forall>n < N. \<forall>p < J. pair_at cs' (n * J + p) = refined bh n p (pair_at (data coords) (n * J + p)))"
proof -
  from refine_outer_loop [OF sh len] obtain t' where
    run: "for_each [0..<N] (\<lambda>n. for_each [0..<J] (\<lambda>p. refine_body bh n p)) (data coords) = Inr t'"
    and inv: "refined_upto bh J (data coords) (N * J * 2) (N * J) t'" by blast
  have "pair_at t' (n * J + p) = refined bh n p (pair_at (data coords) (n * J + p))"
    if "n < N" "p < J" for n p
  proof -
    have "n * J + p < N * J" using that by (rule pair_index_less)
    moreover have "(n * J + p) div J = n" "(n * J + p) mod J = p" using that(2) by simp_all
    ultimately show ?thesis using inv by (simp add: refined_upto_def)
  qed
  moreover have "length t' = N * J * 2" using inv by (simp add: refined_upto_def)
  moreover have "post_processing bh coords = Inr \<lparr>shape = [N, J, 2], data = t'\<rparr>"
    using run by (simp add: post_processing_def shc)
  ultimately show ?thesis by blast
qed

lemma nd_at3_pair:
  assumes "shape a = [N, J, 2]"
  shows "(nd_at3 a n p 0, nd_at3 a n p 1) = pair_at (data a) (n * J + p)"
  using assms by (simp add: nd_at3_def pair_at_def)

lemma fold_write_pairs:
  assumes "j \<le> J" "length tc = J * 2"
  shows "length (fold (\<lambda>p tc. let new_pt = A p in tc[p * 2 := fst new_pt, p * 2 + 1 := snd new_pt])
                  [0..<j] tc) = J * 2 \<and>
         (\<forall>q. pair_at (fold (\<lambda>p tc. let new_pt = A p in tc[p * 2 := fst new_pt, p * 2 + 1 := snd new_pt])
                  [0..<j] tc) q = (if q < j then A q else pair_at tc q))"
  using assms(1)
proof (induction j)
  case 0
  then show ?case using assms(2) by simp
next
  case (Suc j)
  let ?F = "\<lambda>p tc. let new_pt = A p in tc[p * 2 := fst new_pt, p * 2 + 1 := snd new_pt]"
  let ?t = "fold ?F [0..<j] tc"
  from Suc have len: "length ?t = J * 2"
    and pairs: "\<And>q. pair_at ?t q = (if q < j then A q else pair_at tc q)" by simp_all
  have fit: "j * 2 + 1 < length ?t" using Suc.prems len by simp
  have step: "fold ?F [0..<Suc j] tc = ?t[j * 2 := fst (A j), j * 2 + 1 := snd (A j)]"
    by (simp add: Let_def)
  show ?case
    unfolding step using pair_at_update [OF fit, of "fst (A j)" "snd (A j)"] pairs len
    by (auto simp: less_Suc_eq)
qed

lemma transform_preds_pairs:
  assumes "length blk = J * 2"
  shows "length (data (transform_preds \<lparr>shape = [J, 2], data = blk\<rparr> c s out)) = J * 2 \<and>
         (\<forall>q < J. pair_at (data (transform_preds \<lparr>shape = [J, 2], data = blk\<rparr> c s out)) q =
            affine_transform (pair_at blk q) (get_affine_transform c s 0 out (0, 0) True))"
proof -
  let ?A = "\<lambda>p. affine_transform (blk ! (p * 2), blk ! (p * 2 + 1)) (get_affine_transform c s 0 out (0, 0) True)"
  have len0: "length (replicate (length blk) (0::real)) = J * 2" using assms by simp
  from fold_write_pairs [OF le_refl len0, of ?A]
  show ?thesis by (simp add: transform_preds_def Let_def pair_at_def)
qed

lemma splice_nth:
  assumes "a + length tp \<le> length xs" "j < length xs"
  shows "(take a xs @ tp @ drop (a + length tp) xs) ! j =
         (if a \<le> j \<and> j < a + length tp then tp ! (j - a) else xs ! j)"
proof -
  let ?pre = "take a xs" and ?post = "drop (a + length tp) xs"
  have la: "length ?pre = a" using assms(1) by simp
  consider "j < a" | "a \<le> j" "j < a + length tp" | "a + length tp \<le> j" by linarith
  then show ?thesis
  proof cases
    case 1
    then have "(?pre @ tp @ ?post) ! j = ?pre ! j" unfolding nth_append la by simp
    also have "\<dots> = xs ! j" using 1 by simp
    finally show ?thesis using 1 by simp
  next
    case 2
    then have "(?pre @ tp @ ?post) ! j = (tp @ ?post) ! (j - a)" unfolding nth_append la by simp
    also have "\<dots> = tp ! (j - a)"
    proof -
      have "j - a < length tp" using 2 by linarith
      then show ?thesis by (simp add: nth_append)
    qed
    finally show ?thesis using 2 by simp
  next
    case 3
    then have "(?pre @ tp @ ?post) ! j = (tp @ ?post) ! (j - a)" unfolding nth_append la by simp
    also have "\<dots> = ?post ! (j - a - length tp)"
    proof -
      have "\<not> j - a < length tp" using 3 by linarith
      then show ?thesis by (simp add: nth_append)
    qed
    also have "\<dots> = xs ! (a + length tp + (j - a - length tp))" using assms by (intro nth_drop) simp
    also have "a + length tp + (j - a - length tp) = j" using 3 by simp
    finally show ?thesis using 3 by simp
  qed
qed

lemma pair_at_splice:
  assumes "length xs = L * 2" "length tp = m * 2" "a + m \<le> L" "k < L"
  shows "pair_at (take (a * 2) xs @ tp @ drop ((a + m) * 2) xs) k =
         (if a \<le> k \<and> k < a + m then pair_at tp (k - a) else pair_at xs k)"
proof -
  have e: "(a + m) * 2 = a * 2 + length tp" using assms(2) by simp
  have fit: "a * 2 + length tp \<le> length xs" using assms by simp
  have j0: "k * 2 < length xs" and j1: "k * 2 + 1 < length xs" using assms by simp_all
  have d0: "k * 2 - a * 2 = (k - a) * 2" by simp
  have d1: "a \<le> k \<Longrightarrow> k * 2 + 1 - a * 2 = (k - a) * 2 + 1" by simp
  have c0: "(a * 2 \<le> k * 2 \<and> k * 2 < a * 2 + length tp) = (a \<le> k \<and> k < a + m)"
    using assms(2) by auto
  have c1: "(a * 2 \<le> k * 2 + 1 \<and> k * 2 + 1 < a * 2 + length tp) = (a \<le> k \<and> k < a + m)"
    using assms(2) by auto
  show ?thesis
    unfolding pair_at_def e splice_nth [OF fit j0] splice_nth [OF fit j1] c0 c1
    using d0 d1 by simp
qed

lemma nd_row_pair:
  assumes "length cs = N * J * 2" "i < N" "q < J"
  shows "pair_at (nd_row (J * 2) i cs) q = pair_at cs (i * J + q)"
proof -
  have "Suc i * (J * 2) \<le> N * (J * 2)" using assms(2) by (rule row_in_buffer)
  then have fit: "Suc i * (J * 2) \<le> length cs" using assms(1) by (simp add: mult.assoc)
  have e0: "i * (J * 2) + q * 2 = (i * J + q) * 2"
    and e1: "i * (J * 2) + (q * 2 + 1) = (i * J + q) * 2 + 1"
    by (simp_all add: algebra_simps)
  have "nd_row (J * 2) i cs ! (q * 2) = cs ! (i * (J * 2) + q * 2)"
    using assms(3) fit by (intro nd_row_nth) simp_all
  moreover have "nd_row (J * 2) i cs ! (q * 2 + 1) = cs ! (i * (J * 2) + (q * 2 + 1))"
    using assms(3) fit by (intro nd_row_nth) simp_all
  ultimately show ?thesis unfolding pair_at_def e0 e1 by simp
qed

lemma block_index:
  assumes "i * J \<le> k" "k < i * J + J"
  shows "k div J = (i::nat)"
proof -
  from assms have "0 < J" by (cases J) auto
  obtain q where q: "k = i * J + q" "q < J"
    using assms by (metis le_Suc_ex nat_add_left_cancel_less)
  then show ?thesis by simp
qed

lemma transform_back_step:
  assumes len: "length cs = N * J * 2" and i: "i < N"
    and inv: "transformed_upto cs T N J i preds"
    and T: "T i = get_affine_transform c s 0 out (0, 0) True"
  shows "transformed_upto cs T N J (Suc i)
           (take (i * (J * 2)) preds @
            data (transform_preds \<lparr>shape = [J, 2], data = nd_row (J * 2) i cs\<rparr> c s out) @
            drop (Suc i * (J * 2)) preds)"
proof -
  let ?blk = "nd_row (J * 2) i cs"
  let ?tp = "data (transform_preds \<lparr>shape = [J, 2], data = ?blk\<rparr> c s out)"
  have "Suc i * (J * 2) \<le> N * (J * 2)" using i by (rule row_in_buffer)
  then have "Suc i * (J * 2) \<le> length cs" using len by (simp add: mult.assoc)
  then have lblk: "length ?blk = J * 2" by (rule nd_row_length)
  from transform_preds_pairs [OF lblk, of c s out]
  have ltp: "length ?tp = J * 2"
    and tp: "\<And>q. q < J \<Longrightarrow> pair_at ?tp q = affine_transform (pair_at ?blk q) (T i)"
    by (simp_all add: T)
  from inv have lp: "length preds = (N * J) * 2"
    and pairs: "\<And>k. k < N * J \<Longrightarrow> pair_at preds k =
        (if k < i * J then affine_transform (pair_at cs k) (T (k div J)) else (0, 0))"
    by (simp_all add: transformed_upto_def)
  have fit: "i * J + J \<le> N * J" using row_in_buffer [OF i, of J] by simp
  have e: "i * (J * 2) = (i * J) * 2" "Suc i * (J * 2) = (i * J + J) * 2" by simp_all
  let ?new = "take ((i * J) * 2) preds @ ?tp @ drop ((i * J + J) * 2) preds"
  have "pair_at ?new k =
      (if k < Suc i * J then affine_transform (pair_at cs k) (T (k div J)) else (0, 0))"
    if k: "k < N * J" for k
  proof (cases "i * J \<le> k \<and> k < i * J + J")
    note sp = pair_at_splice [OF lp ltp fit k]
    case True
    then have q: "k - i * J < J" and kq: "i * J + (k - i * J) = k" by linarith+
    have "pair_at ?new k = pair_at ?tp (k - i * J)"
      unfolding sp by (rule if_P [OF True])
    also have "\<dots> = affine_transform (pair_at ?blk (k - i * J)) (T i)" using q by (rule tp)
    also have "pair_at ?blk (k - i * J) = pair_at cs k"
      using nd_row_pair [OF len i q] kq by simp
    also have "T i = T (k div J)" using block_index [of i J k] True by simp
    finally show ?thesis using True by simp
  next
    case False
    note sp = pair_at_splice [OF lp ltp fit k]
    have "pair_at ?new k = pair_at preds k"
      unfolding sp by (rule if_not_P [OF False])
    with False pairs [OF k] show ?thesis by auto
  qed
  moreover have "length ?new = N * J * 2" using lp ltp fit by simp
  ultimately show ?thesis unfolding e by (simp add: transformed_upto_def)
qed

lemma transform_back_pairs:
  assumes shc: "shape coords = [N, J, 2]" and len: "length (data coords) = N * J * 2"
    and c: "N \<le> length center" and s: "N \<le> length scale"
  shows "\<exists>ps. transform_back coords center scale W H = Inr \<lparr>shape = [N, J, 2], data = ps\<rparr> \<and>
           (\<forall>n < N. \<forall>p < J. pair_at ps (n * J + p) =
              affine_transform (pair_at (data coords) (n * J + p))
                (get_affine_transform (center ! n) (ScaleArray (scale ! n)) 0 (real W, real H) (0, 0) True))"
proof -
  let ?T = "\<lambda>i. get_affine_transform (center ! i) (ScaleArray (scale ! i)) 0 (real W, real H) (0, 0) True"
  let ?body = "\<lambda>i preds.
      if i < length center \<and> i < length scale then
        Inr (take (i * (J * 2)) preds @
             data (transform_preds \<lparr>shape = [J, 2], data = nd_row (J * 2) i (data coords)\<rparr>
                     (center ! i) (ScaleArray (scale ! i)) (real W, real H)) @
             drop (Suc i * (J * 2)) preds)
      else Inl IndexError"
  have "\<exists>ps. for_each [0..<N] ?body (replicate (length (data coords)) 0) = Inr ps \<and>
             transformed_upto (data coords) ?T N J N ps"
  proof (rule for_each_upt_invariant [where Inv = "transformed_upto (data coords) ?T N J"])
    show "transformed_upto (data coords) ?T N J 0 (replicate (length (data coords)) 0)"
      using len by (simp add: transformed_upto_def pair_at_def)
  next
    show "0 \<le> N" by simp
  next
    fix i u assume i: "i < N" and inv: "transformed_upto (data coords) ?T N J i u"
    from i c s have "i < length center \<and> i < length scale" by simp
    then show "\<exists>t'. ?body i u = Inr t' \<and> transformed_upto (data coords) ?T N J (Suc i) t'"
      using transform_back_step [OF len i inv refl] by simp
  qed
  then obtain ps where run: "for_each [0..<N] ?body (replicate (length (data coords)) 0) = Inr ps"
    and inv: "transformed_upto (data coords) ?T N J N ps" by blast
  have "pair_at ps (n * J + p) = affine_transform (pair_at (data coords) (n * J + p)) (?T n)"
    if "n < N" "p < J" for n p
  proof -
    have "n * J + p < N * J" using that by (rule pair_index_less)
    moreover have "(n * J + p) div J = n" using that(2) by simp
    ultimately show ?thesis using inv by (simp add: transformed_upto_def)
  qed
  moreover have "transform_back coords center scale W H = Inr \<lparr>shape = [N, J, 2], data = ps\<rparr>"
  proof -
    have d: "drop 1 [N, J, 2] = [J, 2]" "prod_list [J, 2] = J * 2" "[N, J, 2] ! 0 = N" by simp_all
    show ?thesis unfolding transform_back_def Let_def shc d run by simp
  qed
  ultimately show ?thesis by blast
qed

lemma get_max_pred_shape:
  assumes "shape bh = [N, J, H, W]"
  shows "\<exists>coords maxvals. get_max_pred bh = Inr (coords, maxvals) \<and>
           shape coords = [N, J, 2] \<and> length (data coords) = N * J * 2 \<and>
           shape maxvals = [N, J, 1]"
proof -
  let ?ps = "map (\<lambda>k. peak_of W (nd_row (H * W) k (data bh))) [0..<N * J]"
  have "length (concat (map (\<lambda>(x, y). [x, y]) ?ps)) = N * J * 2"
    using concat_pairs_length [of ?ps] by simp
  then show ?thesis unfolding get_max_pred_rank4 [OF assms] by simp
qed

text \<open>
  Claim C3. The post-processing loop of \<open>_get_final_preds\<close> rounds the coordinate of each
  image \<open>n\<close> and joint \<open>p\<close> to \<open>(px, py) = floor(coord + 0.5)\<close>. If \<open>1 < px < W - 1\<close>
  and \<open>1 < py < H - 1\<close> it adds a quarter of the sign of
  \<open>hm[py][px+1] - hm[py][px-1]\<close> to x and of \<open>hm[py+1][px] - hm[py-1][px]\<close> to y;
  otherwise (so on the border) the coordinate is unchanged; and equal neighbours on both
  sides leave it unchanged as well.
\<close>

theorem post_processing_refines:
  assumes "valid bh" "shape bh = [N, J, H, W]" "valid coords" "shape coords = [N, J, 2]"
    and "n < N" "p < J"
  defines "x \<equiv> nd_at3 coords n p 0" and "y \<equiv> nd_at3 coords n p 1"
  defines "px \<equiv> \<lfloor>x + 0.5\<rfloor>" and "py \<equiv> \<lfloor>y + 0.5\<rfloor>"
  shows "\<exists>coords'. post_processing bh coords = Inr coords' \<and> shape coords' = [N, J, 2] \<and>
     (1 < px \<and> px < int W - 1 \<and> 1 < py \<and> py < int H - 1 \<longrightarrow>
        nd_at3 coords' n p 0 =
          x + 0.25 * sgn (nd_at4 bh n p (nat py) (nat (px + 1)) - nd_at4 bh n p (nat py) (nat (px - 1))) \<and>
        nd_at3 coords' n p 1 =
          y + 0.25 * sgn (nd_at4 bh n p (nat (py + 1)) (nat px) - nd_at4 bh n p (nat (py - 1)) (nat px))) \<and>
     (\<not> (1 < px \<and> px < int W - 1 \<and> 1 < py \<and> py < int H - 1) \<longrightarrow>
        nd_at3 coords' n p 0 = x \<and> nd_at3 coords' n p 1 = y) \<and>
     (nd_at4 bh n p (nat py) (nat (px + 1)) = nd_at4 bh n p (nat py) (nat (px - 1)) \<and>
      nd_at4 bh n p (nat (py + 1)) (nat px) = nd_at4 bh n p (nat (py - 1)) (nat px) \<longrightarrow>
        nd_at3 coords' n p 0 = x \<and> nd_at3 coords' n p 1 = y)"
proof -
  have len: "length (data coords) = N * J * 2" using assms(3,4) by (simp add: valid_def)
  from post_processing_pairs [OF assms(2,4) len] obtain cs' where
    run: "post_processing bh coords = Inr \<lparr>shape = [N, J, 2], data = cs'\<rparr>" and
    pairs: "\<forall>n < N. \<forall>p < J. pair_at cs' (n * J + p) = refined bh n p (pair_at (data coords) (n * J + p))"
    by blast
  let ?c' = "\<lparr>shape = [N, J, 2], data = cs'\<rparr>"
  have old: "pair_at (data coords) (n * J + p) = (x, y)"
    unfolding x_def y_def by (rule nd_at3_pair [OF assms(4), symmetric])
  have "(nd_at3 ?c' n p 0, nd_at3 ?c' n p 1) = pair_at cs' (n * J + p)"
    using nd_at3_pair [of ?c' N J n p] by simp
  also have "\<dots> = refined bh n p (x, y)" using pairs assms(5,6) old by simp
  finally have new: "(nd_at3 ?c' n p 0, nd_at3 ?c' n p 1) = refined bh n p (x, y)" .
  have inner: "nd_at3 ?c' n p 0 =
          x + 0.25 * sgn (nd_at4 bh n p (nat py) (nat (px + 1)) - nd_at4 bh n p (nat py) (nat (px - 1))) \<and>
        nd_at3 ?c' n p 1 =
          y + 0.25 * sgn (nd_at4 bh n p (nat (py + 1)) (nat px) - nd_at4 bh n p (nat (py - 1)) (nat px))"
    if "1 < px \<and> px < int W - 1 \<and> 1 < py \<and> py < int H - 1"
    using new that by (simp add: refined_def Let_def assms(2) px_def py_def)
  have outer: "nd_at3 ?c' n p 0 = x \<and> nd_at3 ?c' n p 1 = y"
    if "\<not> (1 < px \<and> px < int W - 1 \<and> 1 < py \<and> py < int H - 1)"
    using new that by (auto simp: refined_def Let_def assms(2) px_def py_def)
  have sym: "nd_at3 ?c' n p 0 = x \<and> nd_at3 ?c' n p 1 = y"
    if "nd_at4 bh n p (nat py) (nat (px + 1)) = nd_at4 bh n p (nat py) (nat (px - 1)) \<and>
      nd_at4 bh n p (nat (py + 1)) (nat px) = nd_at4 bh n p (nat (py - 1)) (nat px)"
  proof (cases "1 < px \<and> px < int W - 1 \<and> 1 < py \<and> py < int H - 1")
    case True
    from inner [OF True] that show ?thesis by simp
  next
    case False
    then show ?thesis by (rule outer)
  qed
  from run inner outer sym show ?thesis by (intro exI [of _ ?c']) simp
qed

lemma example_batch_valid: "valid example_batch" "shape example_batch = [1, 1, 5, 5]"
  by (simp_all add: valid_def example_batch_def)

theorem post_processing_refines_witness:
  "valid example_batch \<and> shape example_batch = [1, 1, 5, 5] \<and>
   valid \<lparr>shape = [1, 1, 2], data = [2, 2]\<rparr> \<and> (0::nat) < 1 \<and>
   (1::int) < \<lfloor>nd_at3 \<lparr>shape = [1, 1, 2], data = [2, 2]\<rparr> 0 0 0 + 0.5\<rfloor> \<and>
   \<lfloor>nd_at3 \<lparr>shape = [1, 1, 2], data = [2, 2]\<rparr> 0 0 0 + 0.5\<rfloor> < int 5 - 1 \<and>
   (\<exists>coords'. post_processing example_batch \<lparr>shape = [1, 1, 2], data = [2, 2]\<rparr> = Inr coords' \<and>
      nd_at3 coords' 0 0 0 = 9 / 4 \<and> nd_at3 coords' 0 0 1 = 7 / 4)"
proof -
  let ?c = "\<lparr>shape = [1, 1, 2], data = [2, 2]\<rparr>"
  have vc: "valid ?c" and sc: "shape ?c = [1, 1, 2]" by (simp_all add: valid_def)
  have n: "(0::nat) < 1" by simp
  have xy: "nd_at3 ?c 0 0 0 = 2" "nd_at3 ?c 0 0 1 = 2" by (simp_all add: nd_at3_def)
  have fl: "\<lfloor>(2::real) + 0.5\<rfloor> = 2" by linarith
  have hm: "nd_at4 example_batch 0 0 2 3 = 1" "nd_at4 example_batch 0 0 2 1 = 0"
    "nd_at4 example_batch 0 0 3 2 = 0" "nd_at4 example_batch 0 0 1 2 = 2"
    by (simp_all add: nd_at4_def example_batch_def)
  have nats: "nat (2 + 1) = 3" "nat (2 - 1) = 1" "nat 2 = 2" by simp_all
  from post_processing_refines [OF example_batch_valid vc sc n n]
  obtain coords' where run: "post_processing example_batch ?c = Inr coords'"
    and inner: "1 < \<lfloor>nd_at3 ?c 0 0 0 + 0.5\<rfloor> \<and> \<lfloor>nd_at3 ?c 0 0 0 + 0.5\<rfloor> < int 5 - 1 \<and>
        1 < \<lfloor>nd_at3 ?c 0 0 1 + 0.5\<rfloor> \<and> \<lfloor>nd_at3 ?c 0 0 1 + 0.5\<rfloor> < int 5 - 1 \<longrightarrow>
        nd_at3 coords' 0 0 0 =
          nd_at3 ?c 0 0 0 + 0.25 * sgn (nd_at4 example_batch 0 0 (nat \<lfloor>nd_at3 ?c 0 0 1 + 0.5\<rfloor>) (nat (\<lfloor>nd_at3 ?c 0 0 0 + 0.5\<rfloor> + 1)) -
             nd_at4 example_batch 0 0 (nat \<lfloor>nd_at3 ?c 0 0 1 + 0.5\<rfloor>) (nat (\<lfloor>nd_at3 ?c 0 0 0 + 0.5\<rfloor> - 1))) \<and>
        nd_at3 coords' 0 0 1 =
          nd_at3 ?c 0 0 1 + 0.25 * sgn (nd_at4 example_batch 0 0 (nat (\<lfloor>nd_at3 ?c 0 0 1 + 0.5\<rfloor> + 1)) (nat \<lfloor>nd_at3 ?c 0 0 0 + 0.5\<rfloor>) -
             nd_at4 example_batch 0 0 (nat (\<lfloor>nd_at3 ?c 0 0 1 + 0.5\<rfloor> - 1)) (nat \<lfloor>nd_at3 ?c 0 0 0 + 0.5\<rfloor>))"
    by blast
  from inner have "nd_at3 coords' 0 0 0 = 9 / 4 \<and> nd_at3 coords' 0 0 1 = 7 / 4"
    unfolding xy fl nats hm by simp
  with run have "\<exists>coords'. post_processing example_batch ?c = Inr coords' \<and>
      nd_at3 coords' 0 0 0 = 9 / 4 \<and> nd_at3 coords' 0 0 1 = 7 / 4" by blast
  moreover have "(1::int) < \<lfloor>nd_at3 ?c 0 0 0 + 0.5\<rfloor>" "\<lfloor>nd_at3 ?c 0 0 0 + 0.5\<rfloor> < int 5 - 1"
    unfolding xy fl by simp_all
  ultimately show ?thesis using example_batch_valid vc n by (intro conjI)
qed

text \<open>
  Claim C5. On a valid batch of shape \<open>(N, J, H, W)\<close> with a center and a scale for each
  image, \<open>_get_final_preds\<close> returns the confidences of \<open>get_max_pred\<close> unchanged, and the
  prediction of image \<open>n\<close> and joint \<open>p\<close> is the product of the inverse affine transform
  for \<open>center[n]\<close>, \<open>scale[n]\<close>, rotation 0 and output size \<open>(W, H)\<close> with the
  homogeneous coordinate \<open>(x, y, 1)\<close> that post-processing leaves for that joint.
\<close>

theorem final_preds_pipeline:
  assumes "valid bh" "shape bh = [N, J, H, W]" "N \<le> length center" "N \<le> length scale"
    and "n < N" "p < J"
  shows "\<exists>coords maxvals coords' preds a b c d e f.
     get_max_pred bh = Inr (coords, maxvals) \<and>
     post_processing bh coords = Inr coords' \<and>
     get_final_preds bh center scale = Inr (preds, maxvals) \<and>
     get_affine_transform (center ! n) (ScaleArray (scale ! n)) 0 (real W, real H) (0, 0) True =
       ((a, b, c), (d, e, f)) \<and>
     nd_at3 preds n p 0 = a * nd_at3 coords' n p 0 + b * nd_at3 coords' n p 1 + c \<and>
     nd_at3 preds n p 1 = d * nd_at3 coords' n p 0 + e * nd_at3 coords' n p 1 + f"
proof -
  from get_max_pred_shape [OF assms(2)] obtain coords maxvals where
    gm: "get_max_pred bh = Inr (coords, maxvals)" and shc: "shape coords = [N, J, 2]"
    and len: "length (data coords) = N * J * 2" by blast
  from post_processing_pairs [OF assms(2) shc len] obtain cs' where
    pp: "post_processing bh coords = Inr \<lparr>shape = [N, J, 2], data = cs'\<rparr>"
    and len': "length cs' = N * J * 2" by blast
  let ?c' = "\<lparr>shape = [N, J, 2], data = cs'\<rparr>"
  let ?t = "get_affine_transform (center ! n) (ScaleArray (scale ! n)) 0 (real W, real H) (0, 0) True"
  have "\<exists>ps. transform_back ?c' center scale W H = Inr \<lparr>shape = [N, J, 2], data = ps\<rparr> \<and>
           (\<forall>n < N. \<forall>p < J. pair_at ps (n * J + p) =
              affine_transform (pair_at (data ?c') (n * J + p))
                (get_affine_transform (center ! n) (ScaleArray (scale ! n)) 0 (real W, real H) (0, 0) True))"
    using len' assms(3,4) by (intro transform_back_pairs) simp_all
  then obtain ps where tb: "transform_back ?c' center scale W H = Inr \<lparr>shape = [N, J, 2], data = ps\<rparr>"
    and pr: "pair_at ps (n * J + p) = affine_transform (pair_at cs' (n * J + p)) ?t"
    using assms(5,6) by auto
  let ?preds = "\<lparr>shape = [N, J, 2], data = ps\<rparr>"
  have fin: "get_final_preds bh center scale = Inr (?preds, maxvals)"
    by (simp add: get_final_preds_def gm pp tb assms(2))
  obtain a b c d e f where t: "?t = ((a, b, c), (d, e, f))" by (metis prod.exhaust)
  have "(nd_at3 ?preds n p 0, nd_at3 ?preds n p 1) = pair_at ps (n * J + p)"
    using nd_at3_pair [of ?preds N J n p] by simp
  also have "\<dots> = affine_transform (pair_at cs' (n * J + p)) ?t" by (rule pr)
  also have "pair_at cs' (n * J + p) = (nd_at3 ?c' n p 0, nd_at3 ?c' n p 1)"
    using nd_at3_pair [of ?c' N J n p] by simp
  finally have "nd_at3 ?preds n p 0 = a * nd_at3 ?c' n p 0 + b * nd_at3 ?c' n p 1 + c \<and>
     nd_at3 ?preds n p 1 = d * nd_at3 ?c' n p 0 + e * nd_at3 ?c' n p 1 + f"
    by (simp add: t affine_transform_def)
  with gm pp fin t show ?thesis by blast
qed

lemma example_batch_peak:
  "get_max_pred example_batch =
     Inr (\<lparr>shape = [1, 1, 2], data = [2, 2]\<rparr>, \<lparr>shape = [1, 1, 1], data = [5]\<rparr>)"
  by code_simp

lemma example_batch_refined:
  "post_processing example_batch \<lparr>shape = [1, 1, 2], data = [2, 2]\<rparr> =
     Inr \<lparr>shape = [1, 1, 2], data = [9 / 4, 7 / 4]\<rparr>"
  by code_simp

lemma example_inverse:
  "get_affine_transform (48, 64) (ScaleArray (96, 128)) 0 (real 5, real 5) (0, 0) True =
     ((96 / 5, 0, 0), (0, 96 / 5, 16))"
  by (simp add: get_affine_transform_def affine_points_def Let_def vadd_def vsub_def vmul_def
      get_dir_def get_3rd_point_def getAffineTransform_def solve_row_def)

theorem final_preds_pipeline_witness:
  "valid example_batch \<and> shape example_batch = [1, 1, 5, 5] \<and>
   (1::nat) \<le> length [(48::real, 64::real)] \<and> (1::nat) \<le> length [(96::real, 128::real)] \<and>
   (0::nat) < 1 \<and>
   (\<exists>preds maxvals. get_final_preds example_batch [(48, 64)] [(96, 128)] = Inr (preds, maxvals) \<and>
      nd_at3 preds 0 0 0 = 216 / 5 \<and> nd_at3 preds 0 0 1 = 248 / 5 \<and> nd_at3 maxvals 0 0 0 = 5)"
proof -
  have c: "(1::nat) \<le> length [(48::real, 64::real)]"
    and s: "(1::nat) \<le> length [(96::real, 128::real)]" and n: "(0::nat) < 1" by simp_all
  from final_preds_pipeline [OF example_batch_valid c s n n]
  obtain coords maxvals coords' preds a b c' d e f where
    gm: "get_max_pred example_batch = Inr (coords, maxvals)" and
    pp: "post_processing example_batch coords = Inr coords'" and
    fin: "get_final_preds example_batch [(48, 64)] [(96, 128)] = Inr (preds, maxvals)" and
    t: "get_affine_transform ([(48, 64)] ! 0) (ScaleArray ([(96, 128)] ! 0)) 0 (real 5, real 5) (0, 0) True =
       ((a, b, c'), (d, e, f))" and
    x: "nd_at3 preds 0 0 0 = a * nd_at3 coords' 0 0 0 + b * nd_at3 coords' 0 0 1 + c'" and
    y: "nd_at3 preds 0 0 1 = d * nd_at3 coords' 0 0 0 + e * nd_at3 coords' 0 0 1 + f"
    by blast
  from gm have coords: "coords = \<lparr>shape = [1, 1, 2], data = [2, 2]\<rparr>"
    and maxvals: "maxvals = \<lparr>shape = [1, 1, 1], data = [5]\<rparr>"
    unfolding example_batch_peak by simp_all
  from pp have coords': "coords' = \<lparr>shape = [1, 1, 2], data = [9 / 4, 7 / 4]\<rparr>"
    unfolding coords example_batch_refined by simp
  from t have m: "a = 96 / 5" "b = 0" "c' = 0" "d = 0" "e = 96 / 5" "f = 16"
    using example_inverse by simp_all
  have "nd_at3 preds 0 0 0 = 216 / 5" "nd_at3 preds 0 0 1 = 248 / 5" "nd_at3 maxvals 0 0 0 = 5"
    unfolding x y m coords' maxvals by (simp_all add: nd_at3_def)
  with fin have "\<exists>preds maxvals. get_final_preds example_batch [(48, 64)] [(96, 128)] = Inr (preds, maxvals) \<and>
      nd_at3 preds 0 0 0 = 216 / 5 \<and> nd_at3 preds 0 0 1 = 248 / 5 \<and> nd_at3 maxvals 0 0 0 = 5"
    by blast
  with example_batch_valid c s n show ?thesis by (intro conjI)
qed

lemma affine_scale_first:
  assumes "fst s = fst s'"
  shows "get_affine_transform c (ScaleArray s) rot out (0, 0) iv =
         get_affine_transform c (ScaleArray s') rot out (0, 0) iv"
  using assms by (simp add: get_affine_transform_def affine_points_def Let_def vmul_def)

lemma transform_preds_scale_first:
  assumes "fst s = fst s'"
  shows "transform_preds coords c (ScaleArray s) out = transform_preds coords c (ScaleArray s') out"
  unfolding transform_preds_def affine_scale_first [OF assms] by (rule refl)

lemma transform_back_scale_first:
  assumes "map fst scale = map fst scale'"
  shows "transform_back coords center scale W H = transform_back coords center scale' W H"
proof -
  from assms have len: "length scale = length scale'" by (rule map_eq_imp_length_eq)
  have at: "fst (scale ! i) = fst (scale' ! i)" if "i < length scale" for i
    using that len arg_cong [OF assms, of "\<lambda>xs. xs ! i"] by simp
  have tp: "transform_preds b (center ! i) (ScaleArray (scale ! i)) out =
            transform_preds b (center ! i) (ScaleArray (scale' ! i)) out"
    if "i < length scale" for i b out
    using at [OF that] by (rule transform_preds_scale_first)
  show ?thesis
    unfolding transform_back_def Let_def
    by (rule arg_cong [where f = "\<lambda>r. case r of Inl e \<Rightarrow> Inl e | Inr preds \<Rightarrow> _ preds"],
        rule for_each_cong) (auto simp: len tp)
qed

text \<open>
  Claim C8. With the default shift \<open>(0, 0)\<close> the transform of \<open>get_affine_transform\<close>
  depends on the first component of \<open>scale\<close> only, and so do the predictions of
  \<open>_get_final_preds\<close>.
\<close>

theorem scale_second_component:
  assumes "fst s = fst s'" "map fst scale = map fst scale'"
  shows "get_affine_transform c (ScaleArray s) rot out (0, 0) iv =
           get_affine_transform c (ScaleArray s') rot out (0, 0) iv \<and>
         get_final_preds bh center scale = get_final_preds bh center scale'"
  unfolding get_final_preds_def transform_back_scale_first [OF assms(2)]
  using affine_scale_first [OF assms(1)] by simp

theorem scale_second_component_witness:
  "fst (96::real, 128::real) = fst (96::real, 7::real) \<and>
   map fst [(96::real, 128::real)] = map fst [(96::real, 7::real)] \<and>
   get_affine_transform (48, 64) (ScaleArray (96, 7)) 0 (real 5, real 5) (0, 0) True =
     ((96 / 5, 0, 0), (0, 96 / 5, 16)) \<and>
   get_final_preds example_batch [(48, 64)] [(96, 128)] =
     get_final_preds example_batch [(48, 64)] [(96, 7)]"
proof -
  have a: "fst (96::real, 128::real) = fst (96::real, 7::real)"
    and b: "map fst [(96::real, 128::real)] = map fst [(96::real, 7::real)]" by simp_all
  from scale_second_component [OF a b, of "(48, 64)" 0 "(real 5, real 5)" True example_batch "[(48, 64)]"]
  show ?thesis using a b unfolding example_inverse by simp
qed

subsection \<open>Input shapes\<close>

lemma for_each_append:
  "for_each (xs @ ys) body s =
     (case for_each xs body s of Inl e \<Rightarrow> Inl e | Inr s' \<Rightarrow> for_each ys body s')"
  by (induction xs arbitrary: s) (auto split: sum.splits)

lemma for_each_raises_at:
  assumes "L < N" and ok: "\<And>i t. i < L \<Longrightarrow> \<exists>t'. body i t = Inr t'"
    and bad: "\<And>t. body L t = Inl e"
  shows "for_each [0..<N] body s = Inl e"
proof -
  have "\<exists>s'. for_each [0..<L] body s = Inr s' \<and> True"
    by (rule for_each_upt_invariant [where Inv = "\<lambda>_ _. True"]) (use ok in auto)
  then obtain s' where first: "for_each [0..<L] body s = Inr s'" by blast
  have split: "[0..<N] = [0..<L] @ L # [Suc L..<N]"
    using assms(1) by (metis le_add1 less_imp_le_nat plus_nat.add_0 upt_add_eq_append upt_conv_Cons le_Suc_ex)
  show ?thesis unfolding split for_each_append first by (simp add: bad)
qed

lemma transform_back_raises:
  assumes "length center < shape coords ! 0 \<or> length scale < shape coords ! 0"
  shows "transform_back coords center scale W H = Inl IndexError"
proof -
  let ?L = "min (length center) (length scale)"
  have L: "?L < shape coords ! 0" using assms by auto
  have "for_each [0..<shape coords ! 0]
          (\<lambda>i preds.
             if i < length center \<and> i < length scale then
               Inr (take (i * prod_list (drop 1 (shape coords))) preds @
                    data (transform_preds
                            \<lparr>shape = drop 1 (shape coords),
                               data = nd_row (prod_list (drop 1 (shape coords))) i (data coords)\<rparr>
                            (center ! i) (ScaleArray (scale ! i)) (real W, real H)) @
                    drop (Suc i * prod_list (drop 1 (shape coords))) preds)
             else Inl IndexError)
          (replicate (length (data coords)) 0) = Inl IndexError"
    by (rule for_each_raises_at [OF L]) auto
  then show ?thesis unfolding transform_back_def Let_def by simp
qed

text \<open>
  Claim C7, amended. \<open>get_max_pred\<close>, and with it \<open>_get_final_preds\<close>, raises
  \<open>IndexError\<close> on a heatmap array of rank below 4 and has no other failure: it returns on
  every valid array of rank 4 or more. \<open>_get_final_preds\<close> returns on a batch of rank 4
  when \<open>center\<close> and \<open>scale\<close> have at least a row per image, and when one of them has
  fewer rows it raises \<open>IndexError\<close> in the loop that transforms back, after the peaks
  were located and refined.
\<close>

theorem shape_checks:
  "(length (shape bh) < 4 \<longrightarrow>
      get_max_pred bh = Inl IndexError \<and> get_final_preds bh center scale = Inl IndexError) \<and>
   (valid bh \<and> 4 \<le> length (shape bh) \<longrightarrow>
      (\<exists>coords maxvals. get_max_pred bh = Inr (coords, maxvals))) \<and>
   (valid bh \<and> shape bh = [N, J, H, W] \<and> N \<le> length center \<and> N \<le> length scale \<longrightarrow>
      (\<exists>preds maxvals. get_final_preds bh center scale = Inr (preds, maxvals))) \<and>
   (valid bh \<and> shape bh = [N, J, H, W] \<and> (length center < N \<or> length scale < N) \<longrightarrow>
      (\<exists>coords maxvals coords'. get_max_pred bh = Inr (coords, maxvals) \<and>
         post_processing bh coords = Inr coords' \<and>
         get_final_preds bh center scale = Inl IndexError))"
proof -
  have p1: "length (shape bh) < 4 \<longrightarrow>
      get_max_pred bh = Inl IndexError \<and> get_final_preds bh center scale = Inl IndexError"
    by (simp add: get_final_preds_def get_max_pred_def)
  have p2: "valid bh \<and> 4 \<le> length (shape bh) \<longrightarrow>
      (\<exists>coords maxvals. get_max_pred bh = Inr (coords, maxvals))"
    by (simp add: get_max_pred_def Let_def)
  have p3: "valid bh \<and> shape bh = [N, J, H, W] \<and> N \<le> length center \<and> N \<le> length scale \<longrightarrow>
      (\<exists>preds maxvals. get_final_preds bh center scale = Inr (preds, maxvals))"
  proof
    assume a: "valid bh \<and> shape bh = [N, J, H, W] \<and> N \<le> length center \<and> N \<le> length scale"
    then have sh: "shape bh = [N, J, H, W]" by simp
    from get_max_pred_shape [OF sh] obtain coords maxvals where
      gm: "get_max_pred bh = Inr (coords, maxvals)" and shc: "shape coords = [N, J, 2]"
      and len: "length (data coords) = N * J * 2" by blast
    from post_processing_pairs [OF sh shc len] obtain cs' where
      pp: "post_processing bh coords = Inr \<lparr>shape = [N, J, 2], data = cs'\<rparr>"
      and len': "length cs' = N * J * 2" by blast
    have "\<exists>ps. transform_back \<lparr>shape = [N, J, 2], data = cs'\<rparr> center scale W H =
            Inr \<lparr>shape = [N, J, 2], data = ps\<rparr> \<and>
             (\<forall>n < N. \<forall>p < J. pair_at ps (n * J + p) =
                affine_transform (pair_at (data \<lparr>shape = [N, J, 2], data = cs'\<rparr>) (n * J + p))
                  (get_affine_transform (center ! n) (ScaleArray (scale ! n)) 0 (real W, real H) (0, 0) True))"
      using len' a by (intro transform_back_pairs) simp_all
    then obtain ps where
      "transform_back \<lparr>shape = [N, J, 2], data = cs'\<rparr> center scale W H = Inr \<lparr>shape = [N, J, 2], data = ps\<rparr>"
      by blast
    then show "\<exists>preds maxvals. get_final_preds bh center scale = Inr (preds, maxvals)"
      by (simp add: get_final_preds_def gm pp sh)
  qed
  have p4: "valid bh \<and> shape bh = [N, J, H, W] \<and> (length center < N \<or> length scale < N) \<longrightarrow>
      (\<exists>coords maxvals coords'. get_max_pred bh = Inr (coords, maxvals) \<and>
         post_processing bh coords = Inr coords' \<and>
         get_final_preds bh center scale = Inl IndexError)"
  proof
    assume a: "valid bh \<and> shape bh = [N, J, H, W] \<and> (length center < N \<or> length scale < N)"
    then have sh: "shape bh = [N, J, H, W]" by simp
    from get_max_pred_shape [OF sh] obtain coords maxvals where
      gm: "get_max_pred bh = Inr (coords, maxvals)" and shc: "shape coords = [N, J, 2]"
      and len: "length (data coords) = N * J * 2" by blast
    from post_processing_pairs [OF sh shc len] obtain cs' where
      pp: "post_processing bh coords = Inr \<lparr>shape = [N, J, 2], data = cs'\<rparr>" by blast
    have "transform_back \<lparr>shape = [N, J, 2], data = cs'\<rparr> center scale W H = Inl IndexError"
      using a by (intro transform_back_raises) simp
    then have "get_final_preds bh center scale = Inl IndexError"
      by (simp add: get_final_preds_def gm pp sh)
    with gm pp show "\<exists>coords maxvals coords'. get_max_pred bh = Inr (coords, maxvals) \<and>
           post_processing bh coords = Inr coords' \<and>
           get_final_preds bh center scale = Inl IndexError" by blast
  qed
  show ?thesis by (intro conjI p1 p2 p3 p4)
qed

text \<open>The definitions that evaluate the decoder on a concrete input.\<close>

lemmas decode_defs =
  get_final_preds_def get_max_pred_def post_processing_def transform_back_def transform_preds_def
  refine_body_def nd_row_def nd_argmax_def nd_max_def nd_mod_def nd_at4_def Let_def
  get_affine_transform_def affine_points_def vadd_def vsub_def vmul_def affine_transform_def
  get_dir_def get_3rd_point_def getAffineTransform_def solve_row_def

lemma rank5_decoded:
  "get_final_preds \<lparr>shape = [1, 1, 1, 2, 2], data = [0, 1, 3, 2]\<rparr> [(48, 64)] [(96, 128)] =
     Inr (\<lparr>shape = [1, 1, 2], data = [0, 88]\<rparr>, \<lparr>shape = [1, 1, 1], data = [3]\<rparr>)"
  by (simp add: decode_defs)

lemma extra_rows_decoded:
  "get_final_preds example_batch [(48, 64), (0, 0)] [(96, 128), (1, 1)] =
     Inr (\<lparr>shape = [1, 1, 2], data = [216 / 5, 248 / 5]\<rparr>, \<lparr>shape = [1, 1, 1], data = [5]\<rparr>)"
  by (simp add: decode_defs example_batch_def)

theorem shape_checks_witness:
  "length (shape \<lparr>shape = [1, 2, 2], data = [0, 1, 3, 2]\<rparr>) < 4 \<and>
   get_max_pred \<lparr>shape = [1, 2, 2], data = [0, 1, 3, 2]\<rparr> = Inl IndexError \<and>
   get_final_preds \<lparr>shape = [1, 2, 2], data = [0, 1, 3, 2]\<rparr> [(48, 64)] [(96, 128)] = Inl IndexError \<and>
   valid \<lparr>shape = [1, 1, 1, 2, 2], data = [0, 1, 3, 2]\<rparr> \<and>
   4 \<le> length (shape \<lparr>shape = [1, 1, 1, 2, 2], data = [0, 1, 3, 2]\<rparr>) \<and>
   (\<exists>coords maxvals.
      get_max_pred \<lparr>shape = [1, 1, 1, 2, 2], data = [0, 1, 3, 2]\<rparr> = Inr (coords, maxvals)) \<and>
   valid example_batch \<and> shape example_batch = [1, 1, 5, 5] \<and>
   (1::nat) \<le> length [(48::real, 64::real)] \<and>
   (\<exists>preds maxvals. get_final_preds example_batch [(48, 64)] [(96, 128)] = Inr (preds, maxvals)) \<and>
   length ([]::vec2 list) < 1 \<and>
   get_final_preds example_batch [] [(96, 128)] = Inl IndexError"
proof -
  let ?r3 = "\<lparr>shape = [1, 2, 2], data = [0, 1, 3, 2]\<rparr>"
  let ?r5 = "\<lparr>shape = [1, 1, 1, 2, 2], data = [0, 1, 3, 2]\<rparr>"
  have r3: "length (shape ?r3) < 4" by simp
  have r5: "valid ?r5" "4 \<le> length (shape ?r5)" by (simp_all add: valid_def)
  have c: "(1::nat) \<le> length [(48::real, 64::real)]"
    and s: "(1::nat) \<le> length [(96::real, 128::real)]"
    and e: "length ([]::vec2 list) < 1" by simp_all
  from shape_checks [of ?r3 "[(48, 64)]" "[(96, 128)]"] r3
  have a1: "get_max_pred ?r3 = Inl IndexError"
    and a2: "get_final_preds ?r3 [(48, 64)] [(96, 128)] = Inl IndexError" by blast+
  from shape_checks [of ?r5] r5
  have a3: "\<exists>coords maxvals. get_max_pred ?r5 = Inr (coords, maxvals)" by blast
  from shape_checks [of example_batch "[(48, 64)]" "[(96, 128)]" 1 1 5 5] example_batch_valid c s
  have a4: "\<exists>preds maxvals. get_final_preds example_batch [(48, 64)] [(96, 128)] = Inr (preds, maxvals)"
    by blast
  from shape_checks [of example_batch "[]" "[(96, 128)]" 1 1 5 5] example_batch_valid e
  have a5: "get_final_preds example_batch [] [(96, 128)] = Inl IndexError" by blast
  from r3 a1 a2 r5 a3 example_batch_valid c a4 e a5 show ?thesis by (intro conjI)
qed

theorem shape_checks_counterexample:
  "valid \<lparr>shape = [1, 1, 1, 2, 2], data = [0, 1, 3, 2]\<rparr> \<and>
   length (shape \<lparr>shape = [1, 1, 1, 2, 2], data = [0, 1, 3, 2]\<rparr>) = 5 \<and>
   get_max_pred \<lparr>shape = [1, 1, 1, 2, 2], data = [0, 1, 3, 2]\<rparr> =
     Inr (\<lparr>shape = [1, 1, 2], data = [0, 1]\<rparr>, \<lparr>shape = [1, 1, 1], data = [3]\<rparr>) \<and>
   get_final_preds \<lparr>shape = [1, 1, 1, 2, 2], data = [0, 1, 3, 2]\<rparr> [(48, 64)] [(96, 128)] =
     Inr (\<lparr>shape = [1, 1, 2], data = [0, 88]\<rparr>, \<lparr>shape = [1, 1, 1], data = [3]\<rparr>) \<and>
   shape example_batch ! 0 = 1 \<and> length [(48::real, 64::real), (0, 0)] = 2 \<and>
   get_final_preds example_batch [(48, 64), (0, 0)] [(96, 128), (1, 1)] =
     Inr (\<lparr>shape = [1, 1, 2], data = [216 / 5, 248 / 5]\<rparr>, \<lparr>shape = [1, 1, 1], data = [5]\<rparr>)"
proof -
  have "get_max_pred \<lparr>shape = [1, 1, 1, 2, 2], data = [0, 1, 3, 2]\<rparr> =
     Inr (\<lparr>shape = [1, 1, 2], data = [0, 1]\<rparr>, \<lparr>shape = [1, 1, 1], data = [3]\<rparr>)"
    by (simp add: get_max_pred_def Let_def nd_row_def nd_argmax_def nd_max_def nd_mod_def)
  then show ?thesis
    using rank5_decoded extra_rows_decoded by (simp add: valid_def example_batch_def)
qed

subsection \<open>The frame of \<open>_get_final_preds\<close>\<close>

lemma unchanged_refl: "unchanged st st"
  by (simp add: unchanged_def)

lemma unchanged_length: "unchanged st0 st \<Longrightarrow> length st0 \<le> length st"
  by (simp add: unchanged_def)

lemma unchanged_alloc:
  "unchanged st0 st \<Longrightarrow> unchanged st0 (snd (st_alloc sh xs st))"
  by (simp add: unchanged_def st_alloc_def)

lemma alloc_buf: "buf (fst (st_alloc sh xs st)) = length st"
  by (simp add: st_alloc_def)

lemma unchanged_write:
  "unchanged st0 st \<Longrightarrow> length st0 \<le> buf a \<Longrightarrow> unchanged st0 (st_write a xs st)"
  by (simp add: unchanged_def st_write_def)

lemma unchanged_nth: "unchanged st0 st \<Longrightarrow> a < length st0 \<Longrightarrow> st ! a = st0 ! a"
  by (metis nth_take unchanged_def)

lemma for_each_st_invariant:
  assumes "\<And>i st. P st \<Longrightarrow> P (fst (body i st))" "P st"
  shows "P (fst (for_each_st is body st))"
  using assms(2)
proof (induction "is" arbitrary: st)
  case Nil
  then show ?case by simp
next
  case (Cons i "is")
  from assms(1) [OF Cons.prems, of i] have P: "P (fst (body i st))" .
  show ?case
  proof (cases "body i st")
    case (Pair st' r)
    with P have "P st'" by simp
    then show ?thesis using Pair Cons.IH [of st'] by (cases r) simp_all
  qed
qed

lemma fold_invariant:
  assumes "\<And>p st. P st \<Longrightarrow> P (f p st)" "P st"
  shows "P (fold f xs st)"
  using assms(2) by (induction xs arbitrary: st) (simp_all add: assms(1))

lemma get_max_pred_st_frame:
  assumes "unchanged st0 st"
  shows "unchanged st0 (fst (get_max_pred_st bh st)) \<and>
         (\<forall>preds maxvals. snd (get_max_pred_st bh st) = Inr (preds, maxvals) \<longrightarrow>
            length st0 \<le> buf preds)"
proof (cases "length (rshape bh) < 4")
  case True
  then show ?thesis using assms by (simp add: get_max_pred_st_def)
next
  case False
  define N where "N = rshape bh ! 0"
  define J where "J = rshape bh ! 1"
  define m where "m = prod_list (drop 2 (rshape bh))"
  define rows where "rows = map (\<lambda>k. nd_row m k (st_read st (bh\<lparr>rshape := [N, J, m]\<rparr>))) [0..<N * J]"
  define st1 where "st1 = snd (st_alloc [N, J] (map (\<lambda>g. real (nd_argmax g)) rows) st)"
  define st2 where "st2 = snd (st_alloc [N, J] (map nd_max rows) st1)"
  have u2: "unchanged st0 st2"
    unfolding st2_def st1_def by (intro unchanged_alloc assms)
  have le: "length st0 \<le> length st2" using u2 by (rule unchanged_length)
  show ?thesis
    using False u2 le
    unfolding get_max_pred_st_def Let_def split_def
    by (simp add: unchanged_write unchanged_alloc alloc_buf st2_def st1_def rows_def N_def J_def m_def)
qed

lemma transform_preds_st_frame:
  assumes "unchanged st0 st"
  shows "unchanged st0 (snd (transform_preds_st coords c s out st))"
proof -
  define tc where "tc = fst (st_alloc (rshape coords) (replicate (prod_list (rshape coords)) 0) st)"
  define st1 where "st1 = snd (st_alloc (rshape coords) (replicate (prod_list (rshape coords)) 0) st)"
  have u1: "unchanged st0 st1" unfolding st1_def by (intro unchanged_alloc assms)
  have b: "length st0 \<le> buf tc"
    unfolding tc_def alloc_buf using assms by (rule unchanged_length)
  have "unchanged st0 (fold (\<lambda>p st.
                  let pt = (st_read st coords ! (p * 2), st_read st coords ! (p * 2 + 1));
                      new_pt = affine_transform pt (get_affine_transform c s 0 out (0, 0) True)
                  in st_write \<lparr>buf = buf tc, off = off tc + p * 2, rshape = [2]\<rparr>
                       [fst new_pt, snd new_pt] st)
            [0..<rshape coords ! 0] st1)"
    by (rule fold_invariant [where P = "unchanged st0", OF _ u1])
       (simp add: Let_def unchanged_write b)
  then show ?thesis
    unfolding transform_preds_st_def Let_def split_def tc_def st1_def by simp
qed

lemma refine_body_st_frame:
  assumes "unchanged st0 st" "length st0 \<le> buf coords"
  shows "unchanged st0 (fst (refine_body_st bh coords n p st))"
  using assms by (simp add: refine_body_st_def unchanged_write split: sum.splits)

lemma post_processing_st_frame:
  assumes "unchanged st0 st" "length st0 \<le> buf coords"
  shows "unchanged st0 (fst (post_processing_st bh coords st))"
  unfolding post_processing_st_def
  by (intro for_each_st_invariant [where P = "unchanged st0"] refine_body_st_frame assms)

lemma transform_image_st_frame:
  assumes "unchanged st0 st" "length st0 \<le> buf preds"
  shows "unchanged st0 (fst (transform_image_st preds coords cnp snp out i st))"
proof -
  have "unchanged st0 (st_write (nd_sub preds i) xs
          (snd (transform_preds_st (nd_sub coords i) c s out st)))" for xs c s
    using assms(2) by (intro unchanged_write transform_preds_st_frame assms(1)) (simp add: nd_sub_def)
  then show ?thesis
    using assms(1) by (simp add: transform_image_st_def split_def Let_def)
qed

lemma get_final_preds_st_frame: "unchanged st (fst (get_final_preds_st bh center scale st))"
proof -
  define cnp where "cnp = fst (st_alloc (rshape center) (st_read st center) st)"
  define st1 where "st1 = snd (st_alloc (rshape center) (st_read st center) st)"
  define snp where "snp = fst (st_alloc (rshape scale) (st_read st1 scale) st1)"
  define st2 where "st2 = snd (st_alloc (rshape scale) (st_read st1 scale) st1)"
  have u2: "unchanged st st2"
    unfolding st2_def st1_def by (intro unchanged_alloc unchanged_refl)
  note gm = get_max_pred_st_frame [OF u2, of bh]
  have start: "get_final_preds_st bh center scale st =
     (case get_max_pred_st bh st2 of
           (st, Inl e) \<Rightarrow> (st, Inl e)
         | (st, Inr (coords, maxvals)) \<Rightarrow>
             (case post_processing_st bh coords st of
                  (st, Inl e) \<Rightarrow> (st, Inl e)
                | (st, Inr _) \<Rightarrow>
                    (case for_each_st [0..<rshape coords ! 0]
                              (transform_image_st
                                 (fst (st_alloc (rshape coords) (replicate (prod_list (rshape coords)) 0) st))
                                 coords cnp snp (real (rshape bh ! 3), real (rshape bh ! 2)))
                              (snd (st_alloc (rshape coords) (replicate (prod_list (rshape coords)) 0) st)) of
                         (st', Inl e) \<Rightarrow> (st', Inl e)
                       | (st', Inr _) \<Rightarrow>
                           (st', Inr (fst (st_alloc (rshape coords) (replicate (prod_list (rshape coords)) 0) st),
                                      maxvals)))))"
    unfolding get_final_preds_st_def Let_def split_def cnp_def st1_def snp_def st2_def
    by (simp add: split_def)
  obtain st3 r where g: "get_max_pred_st bh st2 = (st3, r)" by (cases "get_max_pred_st bh st2")
  with gm have u3: "unchanged st st3" by simp
  show ?thesis
  proof (cases r)
    case (Inl e)
    with g u3 show ?thesis unfolding start by simp
  next
    case (Inr pm)
    obtain coords maxvals where pm: "pm = (coords, maxvals)" by (cases pm)
    from gm g Inr pm have b: "length st \<le> buf coords" by simp
    obtain st4 r4 where p: "post_processing_st bh coords st3 = (st4, r4)"
      by (cases "post_processing_st bh coords st3")
    from post_processing_st_frame [OF u3 b, of bh] p have u4: "unchanged st st4" by simp
    show ?thesis
    proof (cases r4)
      case (Inl e)
      with g \<open>r = Inr pm\<close> pm p u4 show ?thesis unfolding start by simp
    next
      case (Inr u)
      define preds where "preds = fst (st_alloc (rshape coords) (replicate (prod_list (rshape coords)) 0) st4)"
      define st5 where "st5 = snd (st_alloc (rshape coords) (replicate (prod_list (rshape coords)) 0) st4)"
      have u5: "unchanged st st5" unfolding st5_def by (intro unchanged_alloc u4)
      have bp: "length st \<le> buf preds"
        unfolding preds_def alloc_buf using u4 by (rule unchanged_length)
      let ?loop = "for_each_st [0..<rshape coords ! 0]
                     (transform_image_st preds coords cnp snp (real (rshape bh ! 3), real (rshape bh ! 2))) st5"
      have u6: "unchanged st (fst ?loop)"
        by (intro for_each_st_invariant [where P = "unchanged st"] transform_image_st_frame u5 bp)
      obtain st6 r6 where l: "?loop = (st6, r6)" by (cases ?loop)
      with u6 have "unchanged st st6" by simp
      then show ?thesis
        unfolding start using g \<open>r = Inr pm\<close> pm p Inr l
        by (cases r6) (simp_all add: preds_def [symmetric] st5_def [symmetric])
    qed
  qed
qed

text \<open>A run of the store model on the example, step by step.\<close>

lemma example_peak_st:
  "get_max_pred_st \<lparr>buf = 0, off = 0, rshape = [1, 1, 5, 5]\<rparr> (example_store @ [[48, 64], [96, 128]]) =
     (example_store @ [[48, 64], [96, 128], [12], [5], [2, 2], [1, 1]],
      Inr (\<lparr>buf = 7, off = 0, rshape = [1, 1, 2]\<rparr>, \<lparr>buf = 6, off = 0, rshape = [1, 1, 1]\<rparr>))"
  by code_simp

lemma example_refined_st:
  "post_processing_st \<lparr>buf = 0, off = 0, rshape = [1, 1, 5, 5]\<rparr> \<lparr>buf = 7, off = 0, rshape = [1, 1, 2]\<rparr>
     (example_store @ [[48, 64], [96, 128], [12], [5], [2, 2], [1, 1]]) =
     (example_store @ [[48, 64], [96, 128], [12], [5], [9 / 4, 7 / 4], [1, 1]], Inr ())"
  by code_simp

lemma example_transformed_st:
  "for_each_st [0..<1]
     (transform_image_st \<lparr>buf = 9, off = 0, rshape = [1, 1, 2]\<rparr> \<lparr>buf = 7, off = 0, rshape = [1, 1, 2]\<rparr>
        \<lparr>buf = 3, off = 0, rshape = [1, 2]\<rparr> \<lparr>buf = 4, off = 0, rshape = [1, 2]\<rparr> (5, 5))
     (example_store @ [[48, 64], [96, 128], [12], [5], [9 / 4, 7 / 4], [1, 1], [0, 0]]) =
     (example_store @ [[48, 64], [96, 128], [12], [5], [9 / 4, 7 / 4], [1, 1], [216 / 5, 248 / 5],
        [216 / 5, 248 / 5]], Inr ())"
  by (simp add: transform_image_st_def transform_preds_st_def st_alloc_def st_read_def st_write_def
      st_rows_def nd_sub_def example_inverse [simplified] affine_transform_def example_store_def Let_def)


lemma example_store_run:
  "get_final_preds_st \<lparr>buf = 0, off = 0, rshape = [1, 1, 5, 5]\<rparr>
     \<lparr>buf = 1, off = 0, rshape = [1, 2]\<rparr> \<lparr>buf = 2, off = 0, rshape = [1, 2]\<rparr> example_store =
   (example_store @
      [[48, 64], [96, 128], [12], [5], [9 / 4, 7 / 4], [1, 1], [216 / 5, 248 / 5], [216 / 5, 248 / 5]],
    Inr (\<lparr>buf = 9, off = 0, rshape = [1, 1, 2]\<rparr>, \<lparr>buf = 6, off = 0, rshape = [1, 1, 1]\<rparr>))"
proof -
  have s1: "st_alloc [1, 2] (st_read example_store \<lparr>buf = 1, off = 0, rshape = [1, 2]\<rparr>) example_store =
      (\<lparr>buf = 3, off = 0, rshape = [1, 2]\<rparr>, example_store @ [[48, 64]])"
    by (simp add: st_alloc_def st_read_def example_store_def)
  have s2: "st_alloc [1, 2] (st_read (example_store @ [[48, 64]]) \<lparr>buf = 2, off = 0, rshape = [1, 2]\<rparr>)
        (example_store @ [[48, 64]]) =
      (\<lparr>buf = 4, off = 0, rshape = [1, 2]\<rparr>, example_store @ [[48, 64], [96, 128]])"
    by (simp add: st_alloc_def st_read_def example_store_def)
  have s3: "st_alloc [1, 1, 2] (replicate (prod_list [1, 1, 2]) 0)
        (example_store @ [[48, 64], [96, 128], [12], [5], [9 / 4, 7 / 4], [1, 1]]) =
      (\<lparr>buf = 9, off = 0, rshape = [1, 1, 2]\<rparr>,
       example_store @ [[48, 64], [96, 128], [12], [5], [9 / 4, 7 / 4], [1, 1], [0, 0]])"
    by (simp add: st_alloc_def example_store_def numeral_2_eq_2)
  have r: "[0..<[1, 1, 2] ! 0] = [0..<1]" "real ([1, 1, 5, 5::nat] ! 3) = 5" "real ([1, 1, 5, 5::nat] ! 2) = 5"
    by simp_all
  show ?thesis
    unfolding get_final_preds_st_def
    by (simp only: nd_ref.simps Let_def s1 s2 prod.case example_peak_st sum.case example_refined_st s3 r example_transformed_st)
qed

text \<open>
  Claim C9. Whatever the inputs, and whether \<open>_get_final_preds\<close> returns or raises, every
  buffer that exists when it is called has the same contents afterwards: the call writes
  only into buffers it allocated. In particular the heatmap batch, \<open>center\<close> and \<open>scale\<close>
  are unchanged.
\<close>

theorem final_preds_frame:
  "length st \<le> length (fst (get_final_preds_st bh center scale st)) \<and>
   (\<forall>a < length st. fst (get_final_preds_st bh center scale st) ! a = st ! a) \<and>
   (buf bh < length st \<longrightarrow>
      st_array (fst (get_final_preds_st bh center scale st)) bh = st_array st bh) \<and>
   (buf center < length st \<longrightarrow>
      st_array (fst (get_final_preds_st bh center scale st)) center = st_array st center) \<and>
   (buf scale < length st \<longrightarrow>
      st_array (fst (get_final_preds_st bh center scale st)) scale = st_array st scale)"
proof -
  let ?st' = "fst (get_final_preds_st bh center scale st)"
  have u: "unchanged st ?st'" by (rule get_final_preds_st_frame)
  then have same: "?st' ! a = st ! a" if "a < length st" for a
    using that by (rule unchanged_nth)
  have arr: "st_array ?st' r = st_array st r" if "buf r < length st" for r
    using same [OF that] by (simp add: st_array_def st_read_def)
  from u same arr show ?thesis by (simp add: unchanged_length)
qed

theorem final_preds_frame_witness:
  "buf \<lparr>buf = 0, off = 0, rshape = [1, 1, 5, 5]\<rparr> < length example_store \<and>
   buf \<lparr>buf = 1, off = 0, rshape = [1, 2]\<rparr> < length example_store \<and>
   buf \<lparr>buf = 2, off = 0, rshape = [1, 2]\<rparr> < length example_store \<and>
   st_array (fst (get_final_preds_st \<lparr>buf = 0, off = 0, rshape = [1, 1, 5, 5]\<rparr>
       \<lparr>buf = 1, off = 0, rshape = [1, 2]\<rparr> \<lparr>buf = 2, off = 0, rshape = [1, 2]\<rparr> example_store))
     \<lparr>buf = 0, off = 0, rshape = [1, 1, 5, 5]\<rparr> = example_batch \<and>
   data (st_array (fst (get_final_preds_st \<lparr>buf = 0, off = 0, rshape = [1, 1, 5, 5]\<rparr>
       \<lparr>buf = 1, off = 0, rshape = [1, 2]\<rparr> \<lparr>buf = 2, off = 0, rshape = [1, 2]\<rparr> example_store))
     \<lparr>buf = 1, off = 0, rshape = [1, 2]\<rparr>) = [48, 64] \<and>
   data (st_array (fst (get_final_preds_st \<lparr>buf = 0, off = 0, rshape = [1, 1, 5, 5]\<rparr>
       \<lparr>buf = 1, off = 0, rshape = [1, 2]\<rparr> \<lparr>buf = 2, off = 0, rshape = [1, 2]\<rparr> example_store))
     \<lparr>buf = 2, off = 0, rshape = [1, 2]\<rparr>) = [96, 128] \<and>
   get_final_preds_st \<lparr>buf = 0, off = 0, rshape = [1, 1, 5, 5]\<rparr>
       \<lparr>buf = 1, off = 0, rshape = [1, 2]\<rparr> \<lparr>buf = 2, off = 0, rshape = [1, 2]\<rparr> example_store =
     (example_store @
        [[48, 64], [96, 128], [12], [5], [9 / 4, 7 / 4], [1, 1], [216 / 5, 248 / 5], [216 / 5, 248 / 5]],
      Inr (\<lparr>buf = 9, off = 0, rshape = [1, 1, 2]\<rparr>, \<lparr>buf = 6, off = 0, rshape = [1, 1, 1]\<rparr>))"
  using example_store_run final_preds_frame [of example_store "\<lparr>buf = 0, off = 0, rshape = [1, 1, 5, 5]\<rparr>"
      "\<lparr>buf = 1, off = 0, rshape = [1, 2]\<rparr>" "\<lparr>buf = 2, off = 0, rshape = [1, 2]\<rparr>"]
  by (simp add: example_store_def example_batch_def st_array_def st_read_def)

subsection \<open>The store model computes what the functions compute\<close>

lemma prod_list_split2:
  "2 \<le> length xs \<Longrightarrow> prod_list xs = xs ! 0 * xs ! 1 * prod_list (drop 2 xs)"
  by (cases xs; cases "tl xs") (auto simp: numeral_2_eq_2 mult.assoc)

lemma tiled_length: "length (concat (map (\<lambda>i. [i, i]) is)) = 2 * length is"
  by (induction "is") auto

lemma mask_length:
  "length (concat (map (\<lambda>v. if 0 < v then [1, 1] else [0, 0::real]) (vs::real list))) = 2 * length vs"
  by (induction vs) auto

lemma map_even_length: "length (map_even f xs) = length xs"
  by (induction f xs rule: map_even.induct) auto

lemma map_odd_length: "length (map_odd f xs) = length xs"
  by (induction f xs rule: map_odd.induct) auto

lemma masked_pairs:
  "length is = length vs \<Longrightarrow>
   map2 (*) (map_odd g (map_even f (concat (map (\<lambda>i. [i, i]) is))))
            (concat (map (\<lambda>v. if 0 < v then [1, 1] else [0, 0::real]) vs)) =
   concat (map (\<lambda>(x, y). [x, y])
     (map2 (\<lambda>(x, y) k. (x * k, y * k))
        (map (\<lambda>(x, y). (x, g y)) (map (\<lambda>(x, y). (f x, y)) (map (\<lambda>i. (i, i)) is)))
        (map (\<lambda>v. if 0 < v then 1 else 0) vs)))"
  by (induction "is" vs rule: list_induct2) auto

lemma write_whole:
  "buf a < length st \<Longrightarrow> off a = 0 \<Longrightarrow> length xs = length (st ! buf a) \<Longrightarrow>
     st_write a xs st = st[buf a := xs]"
  by (simp add: st_write_def)

lemma get_max_pred_st_refines:
  assumes rank: "4 \<le> length (rshape bh)"
  shows "\<exists>st' p m. get_max_pred_st bh st = (st', Inr (p, m)) \<and>
           get_max_pred (st_array st bh) = Inr (st_array st' p, st_array st' m) \<and>
           buf p = length st + 2 \<and> buf m = length st + 1 \<and> length st' = length st + 4 \<and>
           off p = 0 \<and> rshape p = [rshape bh ! 0, rshape bh ! 1, 2] \<and>
           length (st' ! buf p) = rshape bh ! 0 * rshape bh ! 1 * 2"
proof -
  define N where "N = rshape bh ! 0"
  define J where "J = rshape bh ! 1"
  define W where "W = rshape bh ! 3"
  define m where "m = prod_list (drop 2 (rshape bh))"
  define rows where "rows = map (\<lambda>k. nd_row m k (st_read st bh)) [0..<N * J]"
  define idxs where "idxs = map (\<lambda>g. real (nd_argmax g)) rows"
  define mx where "mx = map nd_max rows"
  define fin where "fin = map2 (*)
      (map_odd (\<lambda>y. of_int \<lfloor>y / real W\<rfloor>) (map_even (\<lambda>x. nd_mod x (real W)) (concat (map (\<lambda>i. [i, i]) idxs))))
      (concat (map (\<lambda>v. if 0 < v then [1, 1] else [0, 0]) mx))"
  have pl: "prod_list (rshape bh) = N * J * m"
    unfolding N_def J_def m_def using rank by (intro prod_list_split2) simp
  have rd: "st_read st (bh\<lparr>rshape := [N, J, m]\<rparr>) = st_read st bh"
    by (simp add: st_read_def pl mult.assoc)
  have li: "length idxs = N * J" and lm: "length mx = N * J"
    by (simp_all add: idxs_def mx_def rows_def)
  have lt: "length (concat (map (\<lambda>i. [i, i]) idxs)) = 2 * (N * J)"
    by (simp add: tiled_length li)
  have lk: "length (concat (map (\<lambda>v. if 0 < v then [1, 1] else [0, 0::real]) mx)) = 2 * (N * J)"
    by (simp add: mask_length lm)
  have lf: "length fin = N * J * 2"
    by (simp add: fin_def map_even_length map_odd_length lt lk)
  let ?I = "\<lparr>buf = length st, off = 0, rshape = [N, J]\<rparr>"
  let ?I1 = "\<lparr>buf = length st, off = 0, rshape = [N, J, 1]\<rparr>"
  let ?M = "\<lparr>buf = length (st @ [idxs]), off = 0, rshape = [N, J]\<rparr>"
  let ?M1 = "\<lparr>buf = length (st @ [idxs]), off = 0, rshape = [N, J, 1]\<rparr>"
  let ?P = "\<lparr>buf = length (st @ [idxs, mx]), off = 0, rshape = [N, J, 2]\<rparr>"
  let ?tiled = "concat (map (\<lambda>i. [i, i]) idxs)"
  let ?e1 = "map_even (\<lambda>x. nd_mod x (real W)) ?tiled"
  let ?e2 = "map_odd (\<lambda>y. of_int \<lfloor>y / real W\<rfloor>) ?e1"
  let ?mask = "concat (map (\<lambda>v. if 0 < v then [1, 1] else [0, 0::real]) mx)"
  let ?K = "\<lparr>buf = length (st @ [idxs, mx, ?e2]), off = 0, rshape = [N, J, 2]\<rparr>"
  have a1: "st_alloc [N, J] idxs st = (?I, st @ [idxs])" by (simp add: st_alloc_def)
  have a2: "st_alloc [N, J] mx (st @ [idxs]) = (?M, st @ [idxs, mx])" by (simp add: st_alloc_def)
  have u1: "?I\<lparr>rshape := [N, J, 1]\<rparr> = ?I1" "?M\<lparr>rshape := [N, J, 1]\<rparr> = ?M1" by simp_all
  have r1: "st_read (st @ [idxs, mx]) ?I1 = idxs" by (simp add: st_read_def li)
  have a3: "st_alloc [N, J, 2] ?tiled (st @ [idxs, mx]) = (?P, st @ [idxs, mx, ?tiled])"
    by (simp add: st_alloc_def)
  have r2: "st_read (st @ [idxs, mx, ?tiled]) ?P = ?tiled" by (simp add: st_read_def nth_append lt)
  have w1: "st_write ?P ?e1 (st @ [idxs, mx, ?tiled]) = st @ [idxs, mx, ?e1]"
    by (simp add: st_write_def nth_append list_update_append map_even_length)
  have r3: "st_read (st @ [idxs, mx, ?e1]) ?P = ?e1"
    by (simp add: st_read_def nth_append lt map_even_length)
  have w2: "st_write ?P ?e2 (st @ [idxs, mx, ?e1]) = st @ [idxs, mx, ?e2]"
    by (simp add: st_write_def nth_append list_update_append map_odd_length)
  have r4: "st_read (st @ [idxs, mx, ?e2]) ?M1 = mx" by (simp add: st_read_def nth_append lm)
  have a4: "st_alloc [N, J, 2] ?mask (st @ [idxs, mx, ?e2]) = (?K, st @ [idxs, mx, ?e2, ?mask])"
    by (simp add: st_alloc_def)
  have r5: "st_read (st @ [idxs, mx, ?e2, ?mask]) ?P = ?e2"
    by (simp add: st_read_def nth_append lt map_even_length map_odd_length)
  have r6: "st_read (st @ [idxs, mx, ?e2, ?mask]) ?K = ?mask"
    by (simp add: st_read_def nth_append lk)
  have w3: "st_write ?P (map2 (*) ?e2 ?mask) (st @ [idxs, mx, ?e2, ?mask]) = st @ [idxs, mx, fin, ?mask]"
    by (simp add: st_write_def nth_append list_update_append lt lk map_even_length map_odd_length fin_def)
  have nr: "(length (rshape bh) < 4) = False" using rank by simp
  have run: "get_max_pred_st bh st = (st @ [idxs, mx, fin, ?mask], Inr (?P, ?M1))"
    unfolding get_max_pred_st_def N_def [symmetric] J_def [symmetric]
      W_def [symmetric] m_def [symmetric] nr
    by (simp only: if_False Let_def rd rows_def [symmetric] idxs_def [symmetric] mx_def [symmetric]
        a1 prod.case a2 u1 r1 a3 r2 w1 r3 w2 r4 a4 r5 r6 w3)
  have pure: "get_max_pred (st_array st bh) =
      Inr (\<lparr>shape = [N, J, 2], data = fin\<rparr>, \<lparr>shape = [N, J, 1], data = mx\<rparr>)"
    using rank
    unfolding get_max_pred_def Let_def fin_def masked_pairs [of idxs mx, unfolded li lm, OF refl]
    by (simp add: st_array_def N_def J_def W_def m_def rows_def idxs_def mx_def comp_def)
  show ?thesis
    unfolding run pure
    by (simp add: st_array_def st_read_def nth_append lf lm N_def J_def)
qed

lemma for_each_st_simulates:
  assumes step: "\<And>i s c. i \<in> set is \<Longrightarrow> Rel s c \<Longrightarrow>
      (case body i c of
         Inl e \<Rightarrow> (\<exists>s'. bodyst i s = (s', Inl e))
       | Inr c' \<Rightarrow> (\<exists>s'. bodyst i s = (s', Inr ()) \<and> Rel s' c'))"
    and rel: "Rel s c"
  shows "case for_each is body c of
           Inl e \<Rightarrow> (\<exists>s'. for_each_st is bodyst s = (s', Inl e))
         | Inr c' \<Rightarrow> (\<exists>s'. for_each_st is bodyst s = (s', Inr ()) \<and> Rel s' c')"
  using rel step
proof (induction "is" arbitrary: s c)
  case Nil
  then show ?case by simp
next
  case (Cons i "is")
  have here: "case body i c of
         Inl e \<Rightarrow> (\<exists>s'. bodyst i s = (s', Inl e))
       | Inr c' \<Rightarrow> (\<exists>s'. bodyst i s = (s', Inr ()) \<and> Rel s' c')"
    by (rule Cons.prems(2) [OF _ Cons.prems(1)]) simp
  show ?case
  proof (cases "body i c")
    case (Inl e)
    with here show ?thesis by auto
  next
    case (Inr c')
    with here obtain s' where
      b: "bodyst i s = (s', Inr ())" and r: "Rel s' c'" by auto
    have e1: "for_each (i # is) body c = for_each is body c'" by (simp add: Inr)
    have e2: "for_each_st (i # is) bodyst s = for_each_st is bodyst s'" by (simp add: b)
    show ?thesis unfolding e1 e2
      by (rule Cons.IH [OF r]) (rule Cons.prems(2), simp_all)
  qed
qed

lemma refine_body_length:
  "refine_body A n p cs = Inr cs' \<Longrightarrow> length cs' = length cs"
  by (auto simp: refine_body_def Let_def split: if_splits)

lemma refine_body_st_simulates:
  assumes "off P = 0" "buf bh \<noteq> buf P" "coords_in_store A bh P s cs"
  shows "case refine_body A n p cs of
           Inl e \<Rightarrow> (\<exists>s'. refine_body_st bh P n p s = (s', Inl e))
         | Inr cs' \<Rightarrow> (\<exists>s'. refine_body_st bh P n p s = (s', Inr ()) \<and> coords_in_store A bh P s' cs')"
proof -
  from assms(3) have b: "buf P < length s" and c: "s ! buf P = cs"
    and l: "length cs = prod_list (rshape P)" and a: "st_array s bh = A"
    by (simp_all add: coords_in_store_def)
  have rd: "st_read s P = cs" using assms(1) c l by (simp add: st_read_def)
  show ?thesis
  proof (cases "refine_body A n p cs")
    case (Inl e)
    then show ?thesis by (simp add: refine_body_st_def a rd)
  next
    case (Inr cs')
    from refine_body_length [OF Inr] have l': "length cs' = length cs" .
    have w: "st_write P cs' s = s[buf P := cs']"
      using assms(1) c l' by (simp add: st_write_def)
    have "coords_in_store A bh P (s[buf P := cs']) cs'"
      using b l l' a assms(2) by (simp add: coords_in_store_def st_array_def st_read_def)
    then show ?thesis by (simp add: refine_body_st_def a rd Inr w)
  qed
qed

lemma post_processing_st_simulates:
  assumes "off P = 0" "buf bh \<noteq> buf P" "coords_in_store A bh P s cs"
  shows "case for_each ns (\<lambda>n. for_each ps (\<lambda>p. refine_body A n p)) cs of
           Inl e \<Rightarrow> (\<exists>s'. for_each_st ns (\<lambda>n. for_each_st ps (\<lambda>p. refine_body_st bh P n p)) s = (s', Inl e))
         | Inr cs' \<Rightarrow> (\<exists>s'. for_each_st ns (\<lambda>n. for_each_st ps (\<lambda>p. refine_body_st bh P n p)) s = (s', Inr ()) \<and>
                          coords_in_store A bh P s' cs')"
  by (intro for_each_st_simulates [where Rel = "coords_in_store A bh P"]
        refine_body_st_simulates assms)

lemma write_pair_update:
  assumes "k + 1 < length tc"
  shows "take k tc @ [x, y] @ drop (k + 2) tc = tc[k := x, k + 1 := y]"
proof (rule nth_equalityI)
  show "length (take k tc @ [x, y] @ drop (k + 2) tc) = length (tc[k := x, k + 1 := y])"
    using assms by simp
next
  fix j assume "j < length (take k tc @ [x, y] @ drop (k + 2) tc)"
  then have j: "j < length tc" using assms by simp
  have fit: "k + length [x, y] \<le> length tc" using assms by simp
  have "(take k tc @ [x, y] @ drop (k + length [x, y]) tc) ! j =
      (if k \<le> j \<and> j < k + length [x, y] then [x, y] ! (j - k) else tc ! j)"
    by (rule splice_nth [OF fit j])
  moreover have "tc[k := x, k + 1 := y] ! j = (if j = k then x else if j = k + 1 then y else tc ! j)"
    using j assms by (simp add: nth_list_update)
  moreover have "[x, y] ! (j - k) = (if j = k then x else y)" if "k \<le> j" "j < k + 2"
    using that by (cases "j = k") (auto simp: nth_Cons split: nat.splits)
  ultimately show "(take k tc @ [x, y] @ drop (k + 2) tc) ! j = tc[k := x, k + 1 := y] ! j"
    by auto
qed

lemma fold_upt_invariant:
  assumes "Inv 0 s" and "\<And>p t. p < n \<Longrightarrow> Inv p t \<Longrightarrow> Inv (Suc p) (f p t)"
  shows "Inv n (fold f [0..<n] s)"
  using assms(2)
proof (induction n)
  case 0
  then show ?case using assms(1) by simp
next
  case (Suc n)
  have "Inv n (fold f [0..<n] s)" by (rule Suc.IH) (simp add: Suc.prems)
  then show ?case using Suc.prems [of n] by simp
qed

lemma transform_preds_st_run:
  assumes bP: "buf P < length s" and oP: "off P = 0" and sP: "rshape P = [N, J, 2]"
    and cs: "s ! buf P = cs" and len: "length cs = N * J * 2" and i: "i < N"
  shows "transform_preds_st (nd_sub P i) c sc out s =
     (\<lparr>buf = length s, off = 0, rshape = [J, 2]\<rparr>,
      s @ [data (transform_preds \<lparr>shape = [J, 2], data = nd_row (J * 2) i cs\<rparr> c sc out)])"
proof -
  let ?blk = "nd_row (J * 2) i cs"
  let ?t = "get_affine_transform c sc 0 out (0, 0) True"
  let ?F = "\<lambda>p tc. let new_pt = affine_transform (?blk ! (p * 2), ?blk ! (p * 2 + 1)) ?t
                   in tc[p * 2 := fst new_pt, p * 2 + 1 := snd new_pt]"
  let ?S = "\<lparr>buf = buf P, off = i * (J * 2), rshape = [J, 2]\<rparr>"
  let ?G = "\<lambda>p st.
      st_write \<lparr>buf = length s, off = 0 + p * 2, rshape = [2]\<rparr>
        [fst (affine_transform (st_read st ?S ! (p * 2), st_read st ?S ! (p * 2 + 1)) ?t),
         snd (affine_transform (st_read st ?S ! (p * 2), st_read st ?S ! (p * 2 + 1)) ?t)] st"
  let ?z = "replicate (J * 2) (0::real)"
  have sub: "nd_sub P i = ?S"
    by (simp add: nd_sub_def oP sP)
  have "Suc i * (J * 2) \<le> N * (J * 2)" using i by (rule row_in_buffer)
  then have "Suc i * (J * 2) \<le> length cs" using len by (simp add: mult.assoc)
  then have lblk: "length ?blk = J * 2" by (rule nd_row_length)
  have inv: "fold ?G [0..<J] (s @ [?z]) = s @ [fold ?F [0..<J] ?z]"
  proof (rule fold_upt_invariant [where Inv = "\<lambda>p st. st = s @ [fold ?F [0..<p] ?z]"])
    show "s @ [?z] = s @ [fold ?F [0..<0] ?z]" by simp
  next
    fix p t assume p: "p < J" and t: "t = s @ [fold ?F [0..<p] ?z]"
    let ?tc = "fold ?F [0..<p] ?z"
    have ltc: "length ?tc = J * 2"
      using fold_write_pairs [of p J ?z "\<lambda>p. affine_transform (?blk ! (p * 2), ?blk ! (p * 2 + 1)) ?t"] p
      by simp
    have rd: "st_read t ?S = ?blk"
      unfolding t using bP cs by (simp add: st_read_def nth_append nd_row_def)
    have fit: "p * 2 + 1 < length ?tc" using p ltc by simp
    have "st_write \<lparr>buf = length s, off = 0 + p * 2, rshape = [2]\<rparr> [x, y] t =
            s @ [?tc[p * 2 := x, p * 2 + 1 := y]]" for x y
      unfolding t using write_pair_update [OF fit, of x y]
      by (simp add: st_write_def)
    then show "?G p t = s @ [fold ?F [0..<Suc p] ?z]"
      unfolding rd by (simp add: Let_def)
  qed
  have pure: "data (transform_preds \<lparr>shape = [J, 2], data = ?blk\<rparr> c sc out) = fold ?F [0..<J] ?z"
    by (simp add: transform_preds_def lblk)
  have e: "[J, 2] ! 0 = J" "prod_list [J, 2] = J * 2" by simp_all
  show ?thesis
    unfolding transform_preds_st_def Let_def split_def st_alloc_def fst_conv snd_conv sub
      nd_ref.simps e inv pure
    by (rule refl)
qed

lemma st_rows_length: "length (st_rows s a) = rshape a ! 0"
  by (simp add: st_rows_def)

lemma st_rows_same: "s ! buf a = s' ! buf a \<Longrightarrow> st_rows s a = st_rows s' a"
  by (simp add: st_rows_def st_read_def)

lemma transform_image_st_simulates:
  assumes Q: "off Q = 0" "rshape Q = [N, J, 2]" "buf Q < length sq"
    and P: "buf P < length sq" "buf P \<noteq> buf Q" "off P = 0" "rshape P = [N, J, 2]"
      "sq ! buf P = cs" "length cs = N * J * 2"
    and cn: "buf cn < length sq" "buf cn \<noteq> buf Q"
    and sn: "buf sn < length sq" "buf sn \<noteq> buf Q"
    and i: "i < N"
    and rel: "preds_in_store sq Q (N * J * 2) s ps"
  shows "case (if i < length (st_rows sq cn) \<and> i < length (st_rows sq sn) then
                 Inr (take (i * (J * 2)) ps @
                      data (transform_preds \<lparr>shape = [J, 2], data = nd_row (J * 2) i cs\<rparr>
                              (st_rows sq cn ! i) (ScaleArray (st_rows sq sn ! i)) out) @
                      drop (Suc i * (J * 2)) ps)
               else Inl IndexError) of
           Inl e \<Rightarrow> (\<exists>s'. transform_image_st Q P cn sn out i s = (s', Inl e))
         | Inr ps' \<Rightarrow> (\<exists>s'. transform_image_st Q P cn sn out i s = (s', Inr ()) \<and>
                          preds_in_store sq Q (N * J * 2) s' ps')"
proof (cases "i < rshape cn ! 0 \<and> i < rshape sn ! 0")
  case False
  then have cond: "(i < length (st_rows sq cn) \<and> i < length (st_rows sq sn)) = False"
    by (simp add: st_rows_length)
  have body: "transform_image_st Q P cn sn out i s = (s, Inl IndexError)"
    by (simp only: transform_image_st_def if_not_P [OF False])
  show ?thesis unfolding cond if_False by (simp add: body)
next
  case True
  then have cond: "(i < length (st_rows sq cn) \<and> i < length (st_rows sq sn)) = True"
    by (simp add: st_rows_length)
  from rel have ls: "length sq \<le> length s" and q: "s ! buf Q = ps" and lp: "length ps = N * J * 2"
    and fr: "\<And>a. a < length sq \<Longrightarrow> a \<noteq> buf Q \<Longrightarrow> s ! a = sq ! a"
    by (simp_all add: preds_in_store_def)
  have bP: "buf P < length s" using P(1) ls by simp
  have bQ: "buf Q < length s" using Q(3) ls by simp
  have cP: "s ! buf P = cs" using fr [OF P(1,2)] P(5) by simp
  have rc: "st_rows s cn = st_rows sq cn" using fr [OF cn] by (rule st_rows_same)
  have rs: "st_rows s sn = st_rows sq sn" using fr [OF sn] by (rule st_rows_same)
  let ?c = "st_rows sq cn ! i" and ?sc = "ScaleArray (st_rows sq sn ! i)"
  let ?tp = "data (transform_preds \<lparr>shape = [J, 2], data = nd_row (J * 2) i cs\<rparr> ?c ?sc out)"
  let ?T = "\<lparr>buf = length s, off = 0, rshape = [J, 2]\<rparr>"
  have "Suc i * (J * 2) \<le> N * (J * 2)" using i by (rule row_in_buffer)
  then have fit: "Suc i * (J * 2) \<le> length cs" "Suc i * (J * 2) \<le> length ps"
    using P(6) lp by (simp_all add: mult.assoc)
  then have lblk: "length (nd_row (J * 2) i cs) = J * 2" by (intro nd_row_length)
  from transform_preds_pairs [OF lblk, of ?c ?sc out] have ltp: "length ?tp = J * 2" by simp
  have run: "transform_preds_st (nd_sub P i) ?c ?sc out s = (?T, s @ [?tp])"
    by (rule transform_preds_st_run [OF bP P(3,4) cP P(6) i])
  have rd: "st_read (s @ [?tp]) ?T = ?tp" by (simp add: st_read_def ltp)
  let ?ps' = "take (i * (J * 2)) ps @ ?tp @ drop (Suc i * (J * 2)) ps"
  have sub: "nd_sub Q i = \<lparr>buf = buf Q, off = i * (J * 2), rshape = [J, 2]\<rparr>"
    by (simp add: nd_sub_def Q)
  have w: "st_write (nd_sub Q i) ?tp (s @ [?tp]) = (s @ [?tp])[buf Q := ?ps']"
    unfolding sub using bQ q ltp by (simp add: st_write_def nth_append add.commute)
  have body: "transform_image_st Q P cn sn out i s = ((s @ [?tp])[buf Q := ?ps'], Inr ())"
    by (simp only: transform_image_st_def if_P [OF True] rc rs run Let_def prod.case rd w)
  have lps': "length ?ps' = N * J * 2" using fit(2) ltp lp by simp
  have "preds_in_store sq Q (N * J * 2) ((s @ [?tp])[buf Q := ?ps']) ?ps'"
    unfolding preds_in_store_def using ls bQ lps' fr
    by (auto simp: nth_append nth_list_update)
  then show ?thesis unfolding cond if_True by (simp add: body)
qed

lemma refine_body_st_others:
  assumes "length s = n \<and> (\<forall>a. a \<noteq> buf P \<longrightarrow> s ! a = s0 ! a)"
  shows "length (fst (refine_body_st bh P i p s)) = n \<and>
         (\<forall>a. a \<noteq> buf P \<longrightarrow> fst (refine_body_st bh P i p s) ! a = s0 ! a)"
  using assms by (auto simp: refine_body_st_def st_write_def split: sum.splits)

lemma post_processing_st_others:
  "length (fst (post_processing_st bh P s)) = length s \<and>
   (\<forall>a. a \<noteq> buf P \<longrightarrow> fst (post_processing_st bh P s) ! a = s ! a)"
  unfolding post_processing_st_def
  by (intro for_each_st_invariant
        [where P = "\<lambda>t. length t = length s \<and> (\<forall>a. a \<noteq> buf P \<longrightarrow> t ! a = s ! a)"]
        refine_body_st_others) simp_all

text \<open>
  The decoder on the store returns references to arrays whose contents are the arrays that
  \<open>get_final_preds\<close> computes from the contents of its arguments, and it raises the same
  error.
\<close>

lemma store_refines:
  assumes bh: "buf bh < length st" and sc: "buf scale < length st"
  shows "get_final_preds (st_array st bh) (st_rows st center) (st_rows st scale) =
         (case get_final_preds_st bh center scale st of
            (st', Inl e) \<Rightarrow> Inl e
          | (st', Inr (p, m)) \<Rightarrow> Inr (st_array st' p, st_array st' m))"
proof -
  let ?A = "st_array st bh"
  let ?c = "st_rows st center" and ?s = "st_rows st scale"
  let ?cn = "\<lparr>buf = length st, off = 0, rshape = rshape center\<rparr>"
  let ?s1 = "st @ [st_read st center]"
  let ?sn = "\<lparr>buf = length ?s1, off = 0, rshape = rshape scale\<rparr>"
  let ?s2 = "st @ [st_read st center, st_read st scale]"
  have a1: "st_alloc (rshape center) (st_read st center) st = (?cn, ?s1)"
    by (simp add: st_alloc_def)
  have rsc: "st_read ?s1 scale = st_read st scale"
    using sc by (simp add: st_read_def nth_append)
  have a2: "st_alloc (rshape scale) (st_read ?s1 scale) ?s1 = (?sn, ?s2)"
    by (simp add: st_alloc_def rsc)
  have A2: "st_array ?s2 bh = ?A"
    using bh by (simp add: st_array_def st_read_def nth_append)
  have l2: "length ?s2 = length st + 2" by simp
  show ?thesis
  proof (cases "length (rshape bh) < 4")
    case True
    have g: "get_max_pred_st bh ?s2 = (?s2, Inl IndexError)"
      using True by (simp add: get_max_pred_st_def)
    have st: "get_final_preds_st bh center scale st = (?s2, Inl IndexError)"
      by (simp only: get_final_preds_st_def a1 Let_def prod.case a2 g sum.case)
    have pu: "get_final_preds ?A ?c ?s = Inl IndexError"
      using True by (simp add: get_final_preds_def get_max_pred_def st_array_def)
    show ?thesis unfolding st pu by simp
  next
    case False
    then have rank: "4 \<le> length (rshape bh)" by simp
    define N where "N = rshape bh ! 0"
    define J where "J = rshape bh ! 1"
    from get_max_pred_st_refines [OF rank, of ?s2] obtain sG P M where
      g: "get_max_pred_st bh ?s2 = (sG, Inr (P, M))" and
      pg: "get_max_pred (st_array ?s2 bh) = Inr (st_array sG P, st_array sG M)" and
      bP: "buf P = length ?s2 + 2" and bM: "buf M = length ?s2 + 1" and
      lG: "length sG = length ?s2 + 4" and oP: "off P = 0" and
      sP: "rshape P = [N, J, 2]" and lcs: "length (sG ! buf P) = N * J * 2"
      unfolding N_def J_def by blast
    define cs where "cs = sG ! buf P"
    have uG: "unchanged ?s2 sG"
      using get_max_pred_st_frame [OF unchanged_refl, of ?s2 bh] g by simp
    have sameG: "sG ! a = ?s2 ! a" if "a < length ?s2" for a
      using uG that by (rule unchanged_nth)
    have bh2: "buf bh < length ?s2" using bh by simp
    have AG: "st_array sG bh = ?A"
      unfolding A2 [symmetric] using sameG [OF bh2] by (simp add: st_array_def st_read_def)
    have C: "st_array sG P = \<lparr>shape = [N, J, 2], data = cs\<rparr>"
      by (simp add: st_array_def st_read_def oP sP cs_def lcs)
    have bPG: "buf P < length sG" using bP lG by simp
    have ne: "buf bh \<noteq> buf P" using bh bP by simp
    have rel0: "coords_in_store ?A bh P sG cs"
      using bPG lcs AG by (simp add: coords_in_store_def cs_def sP)
    let ?ppl = "for_each [0..<N] (\<lambda>n. for_each [0..<J] (\<lambda>p. refine_body ?A n p)) cs"
    let ?ppl_st = "for_each_st [0..<N] (\<lambda>n. for_each_st [0..<J] (\<lambda>p. refine_body_st bh P n p)) sG"
    note sim = post_processing_st_simulates [OF oP ne rel0, of "[0..<N]" "[0..<J]"]
    have pp_st: "post_processing_st bh P sG = ?ppl_st"
      by (simp add: post_processing_st_def sP)
    have pp_pure: "post_processing ?A \<lparr>shape = [N, J, 2], data = cs\<rparr> =
        (case ?ppl of Inl e \<Rightarrow> Inl e | Inr cs' \<Rightarrow> Inr \<lparr>shape = [N, J, 2], data = cs'\<rparr>)"
    proof -
      have d: "[N, J, 2] ! 0 = N" "[N, J, 2] ! 1 = J" by simp_all
      show ?thesis unfolding post_processing_def ndarray.simps d by (rule refl)
    qed
    have pgm: "get_max_pred ?A = Inr (\<lparr>shape = [N, J, 2], data = cs\<rparr>, st_array sG M)"
      using pg unfolding A2 C .
    show ?thesis
    proof (cases ?ppl)
      case (Inl e)
      with sim obtain s' where l: "?ppl_st = (s', Inl e)" by auto
      have st: "get_final_preds_st bh center scale st = (s', Inl e)"
        by (simp only: get_final_preds_st_def a1 Let_def prod.case a2 g sum.case pp_st l)
      have pu: "get_final_preds ?A ?c ?s = Inl e"
        unfolding get_final_preds_def pgm sum.case prod.case Let_def pp_pure Inl by simp
      show ?thesis unfolding st pu by simp
    next
      case (Inr cs')
      with sim obtain spp where l: "?ppl_st = (spp, Inr ())"
        and rel1: "coords_in_store ?A bh P spp cs'" by auto
      from post_processing_st_others [of bh P sG] l
      have lpp: "length spp = length sG" and opp: "\<And>a. a \<noteq> buf P \<Longrightarrow> spp ! a = sG ! a"
        by (simp_all add: pp_st)
      from rel1 have cP: "spp ! buf P = cs'" and lcs': "length cs' = N * J * 2"
        by (simp_all add: coords_in_store_def sP)
      let ?Q = "\<lparr>buf = length spp, off = 0, rshape = rshape P\<rparr>"
      let ?sq = "spp @ [replicate (prod_list (rshape P)) 0]"
      have a3: "st_alloc (rshape P) (replicate (prod_list (rshape P)) 0) spp = (?Q, ?sq)"
        by (simp add: st_alloc_def)
      let ?out = "(real (rshape bh ! 3), real (rshape bh ! 2))"
      let ?body = "\<lambda>i preds.
          if i < length ?c \<and> i < length ?s then
            Inr (take (i * (J * 2)) preds @
                 data (transform_preds \<lparr>shape = [J, 2], data = nd_row (J * 2) i cs'\<rparr>
                         (?c ! i) (ScaleArray (?s ! i)) ?out) @
                 drop (Suc i * (J * 2)) preds)
          else Inl IndexError"
      let ?tl = "for_each [0..<N] ?body (replicate (N * J * 2) 0)"
      let ?tl_st = "for_each_st [0..<rshape P ! 0] (transform_image_st ?Q P ?cn ?sn ?out) ?sq"
      have rcq: "st_rows ?sq ?cn = ?c"
      proof -
        have "?sq ! length st = st_read st center"
          using lpp lG opp [of "length st"] sameG [of "length st"] bP
          by (simp add: nth_append)
        then show ?thesis by (simp add: st_rows_def st_read_def)
      qed
      have rsq: "st_rows ?sq ?sn = ?s"
      proof -
        have "?sq ! Suc (length st) = st_read st scale"
          using lpp lG opp [of "Suc (length st)"] sameG [of "Suc (length st)"] bP
          by (simp add: nth_append)
        then show ?thesis by (simp add: st_rows_def st_read_def)
      qed
      have rel2: "preds_in_store ?sq ?Q (N * J * 2) ?sq (replicate (N * J * 2) 0)"
        by (simp add: preds_in_store_def sP)
      have tsim: "case ?tl of
           Inl e \<Rightarrow> (\<exists>s'. for_each_st [0..<N] (transform_image_st ?Q P ?cn ?sn ?out) ?sq = (s', Inl e))
         | Inr ps \<Rightarrow> (\<exists>s'. for_each_st [0..<N] (transform_image_st ?Q P ?cn ?sn ?out) ?sq = (s', Inr ()) \<and>
                         preds_in_store ?sq ?Q (N * J * 2) s' ps)"
      proof (rule for_each_st_simulates [where Rel = "preds_in_store ?sq ?Q (N * J * 2)", OF _ rel2])
        fix i s ps assume i: "i \<in> set [0..<N]" and r: "preds_in_store ?sq ?Q (N * J * 2) s ps"
        from i have iN: "i < N" by simp
        have "case (if i < length (st_rows ?sq ?cn) \<and> i < length (st_rows ?sq ?sn) then
                 Inr (take (i * (J * 2)) ps @
                      data (transform_preds \<lparr>shape = [J, 2], data = nd_row (J * 2) i cs'\<rparr>
                              (st_rows ?sq ?cn ! i) (ScaleArray (st_rows ?sq ?sn ! i)) ?out) @
                      drop (Suc i * (J * 2)) ps)
               else Inl IndexError) of
           Inl e \<Rightarrow> (\<exists>s'. transform_image_st ?Q P ?cn ?sn ?out i s = (s', Inl e))
         | Inr ps' \<Rightarrow> (\<exists>s'. transform_image_st ?Q P ?cn ?sn ?out i s = (s', Inr ()) \<and>
                          preds_in_store ?sq ?Q (N * J * 2) s' ps')"
          using bPG lpp bP cP lcs' oP sP
          by (intro transform_image_st_simulates [OF _ _ _ _ _ _ _ _ _ _ _ _ _ iN r])
             (simp_all add: nth_append)
        then show "case ?body i ps of
           Inl e \<Rightarrow> (\<exists>s'. transform_image_st ?Q P ?cn ?sn ?out i s = (s', Inl e))
         | Inr ps' \<Rightarrow> (\<exists>s'. transform_image_st ?Q P ?cn ?sn ?out i s = (s', Inr ()) \<and>
                          preds_in_store ?sq ?Q (N * J * 2) s' ps')"
          unfolding rcq rsq .
      qed
      have rN: "rshape P ! 0 = N" by (simp add: sP)
      have tb: "transform_back \<lparr>shape = [N, J, 2], data = cs'\<rparr> ?c ?s (rshape bh ! 3) (rshape bh ! 2) =
          (case ?tl of Inl e \<Rightarrow> Inl e | Inr ps \<Rightarrow> Inr \<lparr>shape = [N, J, 2], data = ps\<rparr>)"
      proof -
        have d: "drop 1 [N, J, 2] = [J, 2]" "prod_list [J, 2] = J * 2" "[N, J, 2] ! 0 = N" by simp_all
        show ?thesis unfolding transform_back_def Let_def ndarray.simps d lcs' by (rule refl)
      qed
      have pu0: "get_final_preds ?A ?c ?s =
          (case ?tl of Inl e \<Rightarrow> Inl e | Inr ps \<Rightarrow> Inr (\<lparr>shape = [N, J, 2], data = ps\<rparr>, st_array sG M))"
      proof -
        have shA: "shape ?A ! 3 = rshape bh ! 3" "shape ?A ! 2 = rshape bh ! 2"
          by (simp_all add: st_array_def)
        show ?thesis
          unfolding get_final_preds_def pgm sum.case prod.case Let_def pp_pure Inr shA tb
          by (simp split: sum.splits)
      qed
      show ?thesis
      proof (cases ?tl)
        case (Inl e)
        with tsim obtain s' where t: "?tl_st = (s', Inl e)" unfolding rN by auto
        have st: "get_final_preds_st bh center scale st = (s', Inl e)"
          by (simp only: get_final_preds_st_def a1 Let_def prod.case a2 g sum.case pp_st l a3 t)
        show ?thesis unfolding st pu0 Inl by simp
      next
        case (Inr ps)
        with tsim obtain s' where t: "?tl_st = (s', Inr ())"
          and rel3: "preds_in_store ?sq ?Q (N * J * 2) s' ps" unfolding rN by auto
        have st: "get_final_preds_st bh center scale st = (s', Inr (?Q, M))"
          by (simp only: get_final_preds_st_def a1 Let_def prod.case a2 g sum.case pp_st l a3 t)
        from rel3 have q: "s' ! length spp = ps" and lps: "length ps = N * J * 2"
          and fr: "\<And>a. a < length ?sq \<Longrightarrow> a \<noteq> length spp \<Longrightarrow> s' ! a = ?sq ! a"
          by (simp_all add: preds_in_store_def)
        have Qv: "st_array s' ?Q = \<lparr>shape = [N, J, 2], data = ps\<rparr>"
          by (simp add: st_array_def st_read_def q lps sP)
        have "s' ! buf M = sG ! buf M"
          using fr [of "buf M"] opp [of "buf M"] bM bP lpp lG by (simp add: nth_append)
        then have Mv: "st_array s' M = st_array sG M" by (simp add: st_array_def st_read_def)
        show ?thesis unfolding st pu0 Inr by (simp add: Qv Mv)
      qed
    qed
  qed
qed

end
